theory Spec2Isabelle
  imports Complex_Main
begin

unbundle bit_operations_syntax

section \<open>Module constants of dbus\_digitalinputs.py\<close>

text \<open>
  Python's unbounded integers are \<open>int\<close>. Line identifiers (the keys produced by
  \<open>enumerate(args.inputs, 1)\<close>) are \<open>nat\<close>.
\<close>

definition MAXCOUNT :: int where
  "MAXCOUNT = 2 ^ 31 - 1"

definition INPUT_FUNCTION_COUNTER :: int where
  "INPUT_FUNCTION_COUNTER = 1"

definition INPUT_FUNCTION_INPUT :: int where
  "INPUT_FUNCTION_INPUT = 2"

text \<open>The namedtuple \<open>Product(id, name, product)\<close>.\<close>

record Product =
  p_id :: string
  p_name :: string
  p_product :: int

text \<open>The dictionary \<open>FUNCTIONS\<close>; a missing key is \<open>None\<close>.\<close>

definition FUNCTIONS :: "int \<Rightarrow> Product option" where
  "FUNCTIONS f =
     (if f = INPUT_FUNCTION_COUNTER then
        Some \<lparr>p_id = ''pulsemeter'', p_name = ''Pulse meter'', p_product = 0xA163\<rparr>
      else if f = INPUT_FUNCTION_INPUT then
        Some \<lparr>p_id = ''digitalinput'', p_name = ''Digital input'', p_product = 0xA164\<rparr>
      else None)"

definition INPUTTYPES :: "string list" where
  "INPUTTYPES =
     [''Door alarm'', ''Bilge alarm'', ''Burglar alarm'', ''Smoke alarm'',
      ''Fire alarm'', ''CO2 alarm'']"

definition MAXTYPE :: int where
  "MAXTYPE = int (length INPUTTYPES)"

section \<open>Python values, exceptions and outcomes\<close>

datatype error = KeyError | IndexError | TypeError

text \<open>
  The values that are published on a service or passed to the settings handler. The
  type \<open>'f\<close> stands for Python's \<open>float\<close>: the development never looks inside it, and
  the one arithmetic operation the program performs on it, the product
  \<open>int * float\<close>, is a parameter (\<open>fmul\<close> below). Every statement about
  \<open>/Aggregate\<close> therefore holds for the IEEE product as for any other function.
\<close>

datatype 'f pyval = IntV int | FloatV 'f | StrV string

text \<open>
  A Python exception leaves the mutations made before it in place, so an operation on
  a state either returns the new state or raises with the state reached at the raise.
\<close>

datatype 's outcome = Returns 's | Raises error 's

fun state_of :: "'s outcome \<Rightarrow> 's" where
  "state_of (Returns s) = s"
| "state_of (Raises e s) = s"

text \<open>Sequencing of two statements: the second runs only if the first returned.\<close>

fun and_then :: "'s outcome \<Rightarrow> ('s \<Rightarrow> 's outcome) \<Rightarrow> 's outcome" where
  "and_then (Returns s) k = k s"
| "and_then (Raises e s) k = Raises e s"

text \<open>
  Indexing of a Python list: a negative index counts from the end, an index out of
  range raises \<open>IndexError\<close>.
\<close>

definition py_index :: "'a list \<Rightarrow> int \<Rightarrow> error + 'a" where
  "py_index xs i =
     (if 0 \<le> i \<and> i < int (length xs) then Inr (xs ! nat i)
      else if i < 0 \<and> - int (length xs) \<le> i then Inr (xs ! nat (int (length xs) + i))
      else Inl IndexError)"

text \<open>\<open>str.format\<close> of a non-negative integer with \<open>{}\<close> and with \<open>{:02d}\<close>.\<close>

definition digit_char :: "nat \<Rightarrow> char" where
  "digit_char d = ''0123456789'' ! d"

fun str_nat :: "nat \<Rightarrow> string" where
  "str_nat n = (if n < 10 then [digit_char n] else str_nat (n div 10) @ [digit_char (n mod 10)])"

declare str_nat.simps [simp del]

definition format_02d :: "nat \<Rightarrow> string" where
  "format_02d n = (if n < 10 then CHR ''0'' # str_nat n else str_nat n)"

section \<open>External collaborators, at their interface\<close>

text \<open>
  \<open>VeDbusService\<close> (velib\_python) publishes named paths with values. The program uses
  its constructor, \<open>add_path\<close>, \<open>__getitem__\<close>, \<open>__setitem__\<close> and \<open>__del__\<close>. Reading
  or writing a path that was never added raises \<open>KeyError\<close>: both index the
  dictionary of the service's objects.
\<close>

record 'f VeDbusService =
  servicename :: string
  dbusobjects :: "string \<Rightarrow> 'f pyval option"

definition VeDbusService_init :: "string \<Rightarrow> 'f VeDbusService" where
  "VeDbusService_init nm = \<lparr>servicename = nm, dbusobjects = Map.empty\<rparr>"

definition add_path :: "'f VeDbusService \<Rightarrow> string \<Rightarrow> 'f pyval \<Rightarrow> 'f VeDbusService" where
  "add_path svc path v = svc\<lparr>dbusobjects := (dbusobjects svc)(path \<mapsto> v)\<rparr>"

definition getitem :: "'f VeDbusService \<Rightarrow> string \<Rightarrow> error + 'f pyval" where
  "getitem svc path = (case dbusobjects svc path of None \<Rightarrow> Inl KeyError | Some v \<Rightarrow> Inr v)"

definition setitem :: "'f VeDbusService \<Rightarrow> string \<Rightarrow> 'f pyval \<Rightarrow> error + 'f VeDbusService" where
  "setitem svc path v =
     (case dbusobjects svc path of
        None \<Rightarrow> Inl KeyError
      | Some _ \<Rightarrow> Inr (svc\<lparr>dbusobjects := (dbusobjects svc)(path \<mapsto> v)\<rparr>))"

text \<open>
  \<open>SettingsDevice\<close> holds the five settings of one line (\<open>supported_settings\<close>): the
  integers \<open>function\<close>, \<open>inputtype\<close>, \<open>count\<close> and \<open>invert\<close> and the float \<open>rate\<close>.
\<close>

record 'f SettingsDevice =
  sd_function :: int
  sd_inputtype :: int
  sd_rate :: 'f
  sd_count :: int
  sd_invert :: int

text \<open>
  The ranges \<open>supported_settings\<close> declares for the integer settings (minimum and
  maximum, both inclusive); the settings store keeps each value inside them.
\<close>

definition in_range :: "'f SettingsDevice \<Rightarrow> bool" where
  "in_range sd \<longleftrightarrow>
     0 \<le> sd_function sd \<and> sd_function sd \<le> 2 \<and>
     0 \<le> sd_inputtype sd \<and> sd_inputtype sd \<le> MAXTYPE \<and>
     0 \<le> sd_count sd \<and> sd_count sd \<le> MAXCOUNT \<and>
     0 \<le> sd_invert sd \<and> sd_invert sd \<le> 1"

section \<open>The state of \<open>main\<close>\<close>

text \<open>
  What is fixed once \<open>main\<close> has parsed its arguments: \<open>args.servicebase\<close>,
  \<open>args.inputs\<close>, \<open>__file__\<close>, and the float product.
\<close>

record 'f env =
  servicebase :: string
  inputs_arg :: "string list"
  file_name :: string
  fmul :: "int \<Rightarrow> 'f \<Rightarrow> 'f"

text \<open>\<open>inputs = dict(enumerate(args.inputs, 1))\<close>.\<close>

definition inputs :: "'f env \<Rightarrow> nat \<Rightarrow> string option" where
  "inputs env inp =
     (if 1 \<le> inp \<and> inp \<le> length (inputs_arg env) then Some (inputs_arg env ! (inp - 1))
      else None)"

definition inputs_items :: "'f env \<Rightarrow> (nat \<times> string) list" where
  "inputs_items env = zip [1 ..< Suc (length (inputs_arg env))] (inputs_arg env)"

text \<open>
  The three dictionaries \<open>main\<close> closes over. Of the pulse counter only the key set of
  its \<open>gpiomap\<close> is kept, which is all that \<open>registered\<close> reads and is the same in
  \<open>DebugPulseCounter\<close> and \<open>EpollPulseCounter\<close>; the files and the epoll object of
  the latter are not modelled.
\<close>

record 'f state =
  services :: "nat \<Rightarrow> 'f VeDbusService option"
  pulses :: "nat set"
  settings :: "nat \<Rightarrow> 'f SettingsDevice option"

definition pulses_register :: "'f state \<Rightarrow> nat \<Rightarrow> 'f state" where
  "pulses_register st gpio = st\<lparr>pulses := insert gpio (pulses st)\<rparr>"

text \<open>\<open>del self.gpiomap[gpio]\<close> raises \<open>KeyError\<close> for a line that is not registered.\<close>

definition pulses_unregister :: "'f state \<Rightarrow> nat \<Rightarrow> 'f state outcome" where
  "pulses_unregister st gpio =
     (if gpio \<in> pulses st then Returns (st\<lparr>pulses := pulses st - {gpio}\<rparr>)
      else Raises KeyError st)"

definition registered :: "'f state \<Rightarrow> nat \<Rightarrow> bool" where
  "registered st gpio \<longleftrightarrow> gpio \<in> pulses st"

text \<open>\<open>services[inp][path] = v\<close>, on the service object stored for the line.\<close>

definition services_setitem :: "'f state \<Rightarrow> nat \<Rightarrow> string \<Rightarrow> 'f pyval \<Rightarrow> 'f state outcome" where
  "services_setitem st inp path v =
     (case services st inp of
        None \<Rightarrow> Raises KeyError st
      | Some dbusservice \<Rightarrow>
          (case setitem dbusservice path v of
             Inl e \<Rightarrow> Raises e st
           | Inr dbusservice' \<Rightarrow> Returns (st\<lparr>services := (services st)(inp \<mapsto> dbusservice')\<rparr>)))"

section \<open>\<open>register_gpio\<close> and \<open>unregister_gpio\<close>\<close>

definition service_name :: "'f env \<Rightarrow> Product \<Rightarrow> nat \<Rightarrow> string" where
  "service_name env function gpio =
     servicebase env @ ''.'' @ p_id function @ ''.input'' @ format_02d gpio"

text \<open>The seven paths added for every service (lines 156 to 162).\<close>

definition add_mandatory_paths ::
  "'f env \<Rightarrow> Product \<Rightarrow> string \<Rightarrow> nat \<Rightarrow> 'f VeDbusService \<Rightarrow> 'f VeDbusService" where
  "add_mandatory_paths env function path gpio dbusservice =
     (let s1 = add_path dbusservice ''/Management/ProcessName'' (StrV (file_name env));
          s2 = add_path s1 ''/Management/ProcessVersion'' (StrV ''0.1'');
          s3 = add_path s2 ''/Management/Connection'' (StrV path);
          s4 = add_path s3 ''/DeviceInstance'' (IntV (int gpio));
          s5 = add_path s4 ''/ProductId'' (IntV (p_product function));
          s6 = add_path s5 ''/ProductName'' (StrV (p_name function))
      in add_path s6 ''/Connected'' (IntV 1))"

text \<open>
  \<open>register_gpio\<close>. The service object is stored in \<open>services\<close> before its paths are
  added, so a raise leaves the partly built service there. An assignment
  \<open>dbusservice[p] = v\<close> directly after \<open>add_path(p, ...)\<close> cannot raise and is written
  as the second \<open>add_path\<close> on the same path. \<open>gettextcallback\<close> only formats the
  value for display and is left out. The I/O of \<open>EpollPulseCounter.register\<close> is not
  modelled.
\<close>

definition register_gpio :: "'f env \<Rightarrow> 'f state \<Rightarrow> string \<Rightarrow> nat \<Rightarrow> int \<Rightarrow> 'f state outcome" where
  "register_gpio env st path gpio f =
     (case FUNCTIONS f of
        None \<Rightarrow> Raises KeyError st
      | Some function \<Rightarrow>
          let dbusservice = VeDbusService_init (service_name env function gpio);
              dbusservice = add_mandatory_paths env function path gpio dbusservice;
              dbusservice = add_path dbusservice ''/Count'' (IntV 0);
              publish = (\<lambda>svc. st\<lparr>services := (services st)(gpio \<mapsto> svc)\<rparr>)
          in (case settings st gpio of
                None \<Rightarrow> Raises KeyError (publish dbusservice)
              | Some sd \<Rightarrow>
                  let dbusservice = add_path dbusservice ''/Count'' (IntV (sd_count sd)) in
                  if f = INPUT_FUNCTION_COUNTER then
                    let dbusservice = add_path dbusservice ''/Aggregate'' (IntV 0);
                        dbusservice = add_path dbusservice ''/Aggregate''
                                        (FloatV (fmul env (sd_count sd) (sd_rate sd)))
                    in Returns (pulses_register (publish dbusservice) gpio)
                  else if f = INPUT_FUNCTION_INPUT then
                    let dbusservice = add_path dbusservice ''/State'' (IntV (sd_invert sd)) in
                    (case py_index INPUTTYPES (min (sd_inputtype sd) (MAXTYPE - 1)) of
                       Inl e \<Rightarrow> Raises e (publish dbusservice)
                     | Inr t \<Rightarrow>
                         Returns (pulses_register (publish (add_path dbusservice ''/Type'' (StrV t))) gpio))
                  else Returns (pulses_register (publish dbusservice) gpio)))"

text \<open>
  \<open>unregister_gpio\<close>: \<open>pulses.unregister(gpio)\<close>, then \<open>services[gpio].__del__()\<close> and
  \<open>del services[gpio]\<close>, each of which raises \<open>KeyError\<close> on a missing key.
\<close>

definition unregister_gpio :: "'f state \<Rightarrow> nat \<Rightarrow> 'f state outcome" where
  "unregister_gpio st gpio =
     and_then (pulses_unregister st gpio)
       (\<lambda>st1. case services st1 gpio of
                 None \<Rightarrow> Raises KeyError st1
               | Some _ \<Rightarrow> Returns (st1\<lparr>services := (services st1)(gpio := None)\<rparr>))"

section \<open>\<open>handle_setting_change\<close>\<close>

text \<open>
  The callback receives the setting's name with its old and its new value. The name
  fixes the type of the values, so the triple is one value of a datatype: the
  constructor is the name, its arguments are \<open>old\<close> and \<open>new\<close>.
\<close>

datatype 'f change =
    function_change int int
  | inputtype_change int int
  | rate_change 'f 'f
  | count_change int int
  | invert_change int int

fun handle_setting_change :: "'f env \<Rightarrow> 'f state \<Rightarrow> nat \<Rightarrow> 'f change \<Rightarrow> 'f state outcome" where
  "handle_setting_change env st inp (function_change old new) =
     (if new \<noteq> 0 then
        and_then (if registered st inp then unregister_gpio st inp else Returns st)
          (\<lambda>st1. case inputs env inp of
                    None \<Rightarrow> Raises KeyError st1
                  | Some path \<Rightarrow> register_gpio env st1 path inp new)
      else if old \<noteq> 0 then unregister_gpio st inp
      else Returns st)"
| "handle_setting_change env st inp (inputtype_change old new) =
     (if new \<noteq> old then
        (case py_index INPUTTYPES (min new (MAXTYPE - 1)) of
           Inl e \<Rightarrow> Raises e st
         | Inr t \<Rightarrow> services_setitem st inp ''/Type'' (StrV t))
      else Returns st)"
| "handle_setting_change env st inp _ = Returns st"

section \<open>The poll loop\<close>

text \<open>
  One iteration of the loop body of \<open>poll\<close>, for the event \<open>(inp, level)\<close>. The
  \<open>KeyError\<close> of \<open>services[inp]\<close> is caught and the loop continues; every other
  exception leaves the loop. \<open>level ^= invert\<close> is the bitwise exclusive or of the
  integer \<open>level\<close> with \<open>True\<close> or \<open>False\<close>, that is with 1 or 0. \<open>/Count\<close> is only
  ever assigned integers (0, the integer setting \<open>count\<close>, and \<open>v\<close> below); the
  branch for another kind of value is there to make the case distinction total.
\<close>

definition poll_event :: "'f env \<Rightarrow> 'f state \<Rightarrow> nat \<Rightarrow> int \<Rightarrow> 'f state outcome" where
  "poll_event env st inp level =
     (case services st inp of
        None \<Rightarrow> Returns st
      | Some dbusservice \<Rightarrow>
          (case settings st inp of
             None \<Rightarrow> Raises KeyError st
           | Some sd \<Rightarrow>
               let function = sd_function sd;
                   invert = (sd_invert sd \<noteq> 0);
                   level = level XOR (if invert then 1 else 0)
               in and_then
                    (if level \<noteq> 0 then
                       (case getitem dbusservice ''/Count'' of
                          Inl e \<Rightarrow> Raises e st
                        | Inr (IntV c) \<Rightarrow>
                            let v = (c + 1) mod MAXCOUNT in
                            and_then (services_setitem st inp ''/Count'' (IntV v))
                              (\<lambda>st1. if function = INPUT_FUNCTION_COUNTER
                                     then services_setitem st1 inp ''/Aggregate''
                                            (FloatV (fmul env v (sd_rate sd)))
                                     else Returns st1)
                        | Inr _ \<Rightarrow> Raises TypeError st)
                     else Returns st)
                    (\<lambda>st2. if function = INPUT_FUNCTION_INPUT
                           then services_setitem st2 inp ''/State'' (IntV (if level \<noteq> 0 then 1 else 0))
                           else Returns st2)))"

text \<open>
  The loop over a finite prefix of the event stream \<open>pulses()\<close>. An exception ends
  the loop (the source prints the traceback and quits the main loop).
\<close>

fun poll :: "'f env \<Rightarrow> 'f state \<Rightarrow> (nat \<times> int) list \<Rightarrow> 'f state outcome" where
  "poll env st [] = Returns st"
| "poll env st ((inp, level) # events) =
     (case poll_event env st inp level of
        Returns st1 \<Rightarrow> poll env st1 events
      | Raises e st1 \<Rightarrow> Raises e st1)"

section \<open>\<open>save_counters\<close>\<close>

fun save_loop :: "'f state \<Rightarrow> nat list \<Rightarrow> 'f state outcome" where
  "save_loop st [] = Returns st"
| "save_loop st (inp # rest) =
     (case settings st inp of
        None \<Rightarrow> Raises KeyError st
      | Some sd \<Rightarrow>
          if sd_function sd > 0 then
            (case services st inp of
               None \<Rightarrow> Raises KeyError st
             | Some dbusservice \<Rightarrow>
                 (case getitem dbusservice ''/Count'' of
                    Inl e \<Rightarrow> Raises e st
                  | Inr (IntV c) \<Rightarrow>
                      save_loop (st\<lparr>settings := (settings st)(inp \<mapsto> sd\<lparr>sd_count := c\<rparr>)\<rparr>) rest
                  | Inr _ \<Rightarrow> Raises TypeError st))
          else save_loop st rest)"

definition save_counters :: "'f env \<Rightarrow> 'f state \<Rightarrow> 'f state outcome" where
  "save_counters env st = save_loop st (map fst (inputs_items env))"

section \<open>Start-up and the events of a run\<close>

text \<open>
  The loop \<open>for inp, pth in inputs.items()\<close> of \<open>main\<close>. \<open>stored inp\<close> is what the
  settings store holds for line \<open>inp\<close> when its \<open>SettingsDevice\<close> is created.
\<close>

fun init_inputs ::
  "'f env \<Rightarrow> (nat \<Rightarrow> 'f SettingsDevice) \<Rightarrow> 'f state \<Rightarrow> (nat \<times> string) list \<Rightarrow> 'f state outcome" where
  "init_inputs env stored st [] = Returns st"
| "init_inputs env stored st ((inp, pth) # rest) =
     (let sd = stored inp;
          st1 = st\<lparr>settings := (settings st)(inp \<mapsto> sd)\<rparr>
      in if sd_function sd > 0 then
           (case register_gpio env st1 pth inp (sd_function sd) of
              Returns st2 \<Rightarrow> init_inputs env stored st2 rest
            | Raises e st2 \<Rightarrow> Raises e st2)
         else init_inputs env stored st1 rest)"

definition initial_state :: "'f state" where
  "initial_state = \<lparr>services = Map.empty, pulses = {}, settings = Map.empty\<rparr>"

definition startup :: "'f env \<Rightarrow> (nat \<Rightarrow> 'f SettingsDevice) \<Rightarrow> 'f state outcome" where
  "startup env stored = init_inputs env stored initial_state (inputs_items env)"

text \<open>
  A write to one setting of a line in the settings store. \<open>SettingsDevice\<close> records
  the new value and then calls \<open>handle_setting_change\<close> with the old and the new
  value.
\<close>

datatype 'f setting = Function int | Inputtype int | Rate 'f | Count int | Invert int

definition setting_written :: "'f env \<Rightarrow> 'f state \<Rightarrow> nat \<Rightarrow> 'f setting \<Rightarrow> 'f state outcome" where
  "setting_written env st inp s =
     (case settings st inp of
        None \<Rightarrow> Returns st
      | Some sd \<Rightarrow>
          let store = (\<lambda>sd'. st\<lparr>settings := (settings st)(inp \<mapsto> sd')\<rparr>) in
          (case s of
             Function new \<Rightarrow>
               handle_setting_change env (store (sd\<lparr>sd_function := new\<rparr>)) inp
                 (function_change (sd_function sd) new)
           | Inputtype new \<Rightarrow>
               handle_setting_change env (store (sd\<lparr>sd_inputtype := new\<rparr>)) inp
                 (inputtype_change (sd_inputtype sd) new)
           | Rate new \<Rightarrow>
               handle_setting_change env (store (sd\<lparr>sd_rate := new\<rparr>)) inp
                 (rate_change (sd_rate sd) new)
           | Count new \<Rightarrow>
               handle_setting_change env (store (sd\<lparr>sd_count := new\<rparr>)) inp
                 (count_change (sd_count sd) new)
           | Invert new \<Rightarrow>
               handle_setting_change env (store (sd\<lparr>sd_invert := new\<rparr>)) inp
                 (invert_change (sd_invert sd) new)))"

text \<open>
  The events that drive the process after start-up: a setting is written, the pulse
  counter yields an edge, the save timer fires.
\<close>

datatype 'f event = Written nat "'f setting" | Edge nat int | SaveTimer

fun step :: "'f env \<Rightarrow> 'f state \<Rightarrow> 'f event \<Rightarrow> 'f state outcome" where
  "step env st (Written inp s) = setting_written env st inp s"
| "step env st (Edge inp level) = poll_event env st inp level"
| "step env st SaveTimer = save_counters env st"

text \<open>
  A run carries on from the state an event leaves behind, also when the event's
  handler raised: this covers every behaviour of the process, whatever its D-Bus
  binding does with an exception in a callback.
\<close>

fun run :: "'f env \<Rightarrow> 'f state \<Rightarrow> 'f event list \<Rightarrow> 'f state" where
  "run env st [] = st"
| "run env st (e # es) = run env (state_of (step env st e)) es"

text \<open>The values the settings store accepts for a write (\<open>supported_settings\<close>).\<close>

fun valid_setting :: "'f setting \<Rightarrow> bool" where
  "valid_setting (Function v) = (0 \<le> v \<and> v \<le> 2)"
| "valid_setting (Inputtype v) = (0 \<le> v \<and> v \<le> MAXTYPE)"
| "valid_setting (Rate v) = True"
| "valid_setting (Count v) = (0 \<le> v \<and> v \<le> MAXCOUNT)"
| "valid_setting (Invert v) = (0 \<le> v \<and> v \<le> 1)"

fun valid_event :: "'f event \<Rightarrow> bool" where
  "valid_event (Written inp s) = valid_setting s"
| "valid_event (Edge inp level) = True"
| "valid_event SaveTimer = True"

section \<open>What is published for a line\<close>

definition mandatory_paths :: "string set" where
  "mandatory_paths =
     {''/Management/ProcessName'', ''/Management/ProcessVersion'', ''/Management/Connection'',
      ''/DeviceInstance'', ''/ProductId'', ''/ProductName'', ''/Connected''}"

definition published_paths :: "int \<Rightarrow> string set" where
  "published_paths f =
     mandatory_paths \<union> {''/Count''} \<union>
     (if f = INPUT_FUNCTION_COUNTER then {''/Aggregate''}
      else if f = INPUT_FUNCTION_INPUT then {''/State'', ''/Type''} else {})"

definition published :: "'f state \<Rightarrow> nat \<Rightarrow> string \<Rightarrow> 'f pyval option" where
  "published st inp path =
     (case services st inp of None \<Rightarrow> None | Some dbusservice \<Rightarrow> dbusobjects dbusservice path)"

text \<open>
  The invariant of the three dictionaries, line by line. A line without settings has
  neither a service nor a registration. A line with settings has them within their
  ranges; if its function is 0 it has no service and is not registered; otherwise it
  is registered and its service publishes exactly the paths of its function, with an
  integer \<open>/Count\<close> between 0 and \<open>MAXCOUNT\<close>.
\<close>

definition count_ok :: "'f VeDbusService \<Rightarrow> bool" where
  "count_ok dbusservice \<longleftrightarrow>
     (case dbusobjects dbusservice ''/Count'' of
        Some (IntV c) \<Rightarrow> 0 \<le> c \<and> c \<le> MAXCOUNT
      | _ \<Rightarrow> False)"

definition line_consistent :: "'f state \<Rightarrow> nat \<Rightarrow> bool" where
  "line_consistent st inp \<longleftrightarrow>
     (case settings st inp of
        None \<Rightarrow> inp \<notin> pulses st \<and> services st inp = None
      | Some sd \<Rightarrow>
          in_range sd \<and>
          (case services st inp of
             None \<Rightarrow> inp \<notin> pulses st \<and> sd_function sd = 0
           | Some dbusservice \<Rightarrow>
               inp \<in> pulses st \<and> sd_function sd \<noteq> 0 \<and>
               dom (dbusobjects dbusservice) = published_paths (sd_function sd) \<and>
               count_ok dbusservice))"

definition consistent_on :: "nat set \<Rightarrow> 'f state \<Rightarrow> bool" where
  "consistent_on D st \<longleftrightarrow> dom (settings st) = D \<and> (\<forall>inp. line_consistent st inp)"

definition consistent :: "'f env \<Rightarrow> 'f state \<Rightarrow> bool" where
  "consistent env st \<longleftrightarrow> consistent_on {1 .. length (inputs_arg env)} st"

section \<open>Derived notions used in the statements\<close>

text \<open>The level after \<open>level ^= invert\<close>, as \<open>poll\<close> computes it from the setting \<open>invert\<close>.\<close>

definition effective_level :: "'f SettingsDevice \<Rightarrow> int \<Rightarrow> int" where
  "effective_level sd level = level XOR (if sd_invert sd \<noteq> 0 then 1 else 0)"

text \<open>The paths of a service after one edge event, in closed form: \<open>c\<close> is the value of
  \<open>/Count\<close> before the event and \<open>lv\<close> the level after inversion.\<close>

definition after_edge :: "'f env \<Rightarrow> 'f SettingsDevice \<Rightarrow> int \<Rightarrow> int \<Rightarrow> (string \<Rightarrow> 'f pyval option) \<Rightarrow> (string \<Rightarrow> 'f pyval option)" where
  "after_edge env sd c lv objs =
     (let v = (c + 1) mod MAXCOUNT;
          o1 = (if lv \<noteq> 0 then objs(''/Count'' \<mapsto> IntV v) else objs);
          o2 = (if lv \<noteq> 0 \<and> sd_function sd = 1
                then o1(''/Aggregate'' \<mapsto> FloatV (fmul env v (sd_rate sd))) else o1)
      in if sd_function sd = 2 then o2(''/State'' \<mapsto> IntV (if lv \<noteq> 0 then 1 else 0)) else o2)"

text \<open>The settings of a line after \<open>save_counters\<close>, in closed form.\<close>

definition save_line :: "'f state \<Rightarrow> nat \<Rightarrow> 'f SettingsDevice option" where
  "save_line st inp =
     (case settings st inp of
        None \<Rightarrow> None
      | Some sd \<Rightarrow>
          if sd_function sd > 0 then
            (case published st inp ''/Count'' of
               Some (IntV c) \<Rightarrow> Some (sd\<lparr>sd_count := c\<rparr>)
             | _ \<Rightarrow> Some sd)
          else Some sd)"

text \<open>
  The number of events of a list that are for line \<open>inp\<close> and whose level after
  inversion is truthy: the rising detections of the line.
\<close>

definition rising :: "'f SettingsDevice \<Rightarrow> nat \<Rightarrow> (nat \<times> int) list \<Rightarrow> nat" where
  "rising sd inp events =
     length (filter (\<lambda>(i, level). i = inp \<and> effective_level sd level \<noteq> 0) events)"


text \<open>The catalog entry for a type index that is not negative, as the spec words it.\<close>

definition catalog_entry :: "int \<Rightarrow> string" where
  "catalog_entry t = (if MAXTYPE \<le> t then last INPUTTYPES else INPUTTYPES ! nat t)"

text \<open>
  The scenario of two device paths: line 1 is a counter with rate 0.001 and persisted
  count 5, line 2 an inverted level sensor whose type index is the catalog size.
  Floats are rationals here and the product is the exact one.
\<close>

definition scenario_env :: "rat env" where
  "scenario_env =
     \<lparr>servicebase = ''com.victronenergy'', inputs_arg = [''/in/0'', ''/in/1''],
      file_name = ''dbus_digitalinputs.py'', fmul = (\<lambda>c r. of_int c * r)\<rparr>"

definition scenario_stored :: "nat \<Rightarrow> rat SettingsDevice" where
  "scenario_stored inp =
     (if inp = 1 then
        \<lparr>sd_function = 1, sd_inputtype = 0, sd_rate = 1 / 1000, sd_count = 5, sd_invert = 0\<rparr>
      else
        \<lparr>sd_function = 2, sd_inputtype = 6, sd_rate = 1 / 1000, sd_count = 0, sd_invert = 1\<rparr>)"

text \<open>The same scenario with the persisted count of every line at its maximum.\<close>

definition wrap_stored :: "nat \<Rightarrow> rat SettingsDevice" where
  "wrap_stored inp = (scenario_stored inp)\<lparr>sd_count := MAXCOUNT\<rparr>"

definition scenario_state :: "rat state" where
  "scenario_state = state_of (startup scenario_env scenario_stored)"

definition wrap_state :: "rat state" where
  "wrap_state = state_of (startup scenario_env wrap_stored)"


text \<open>Two more runs of the scenario, used to illustrate saving and switching.\<close>

definition saving_events :: "rat event list" where
  "saving_events = [Edge 2 0, Written 2 (Function 0), Edge 1 1]"


section \<open>Basic facts about the operations\<close>

lemma dbusobjects_add_path [simp]:
  "dbusobjects (add_path svc path v) = (dbusobjects svc)(path \<mapsto> v)"
  by (simp add: add_path_def)

lemma servicename_add_path [simp]: "servicename (add_path svc path v) = servicename svc"
  by (simp add: add_path_def)

lemma dom_mandatory [simp]:
  "dom (dbusobjects (add_mandatory_paths env function path gpio (VeDbusService_init nm))) = mandatory_paths"
  by (auto simp: add_mandatory_paths_def VeDbusService_init_def mandatory_paths_def Let_def)

lemma mandatory_other [simp]:
  "p \<notin> mandatory_paths \<Longrightarrow> dbusobjects (add_mandatory_paths env fn path gpio (VeDbusService_init nm)) p = None"
  using dom_mandatory[of env fn path gpio nm] by blast

lemma py_index_INPUTTYPES:
  "0 \<le> t \<Longrightarrow> \<exists>s. py_index INPUTTYPES (min t (MAXTYPE - 1)) = Inr s"
  by (simp add: py_index_def MAXTYPE_def INPUTTYPES_def Let_def min_def)

lemma line_consistent_frame:
  "settings st' inp = settings st inp \<Longrightarrow> services st' inp = services st inp \<Longrightarrow>
   (inp \<in> pulses st' \<longleftrightarrow> inp \<in> pulses st) \<Longrightarrow> line_consistent st' inp = line_consistent st inp"
  by (auto simp: line_consistent_def split: option.splits)

lemma register_gpio_ok:
  assumes "settings st inp = Some sd" "in_range sd" "sd_function sd \<noteq> 0"
  shows "\<exists>st'. register_gpio env st path inp (sd_function sd) = Returns st' \<and>
           settings st' = settings st \<and> pulses st' = insert inp (pulses st) \<and>
           (\<forall>j. j \<noteq> inp \<longrightarrow> services st' j = services st j) \<and>
           (\<exists>svc. services st' inp = Some svc \<and>
              dom (dbusobjects svc) = published_paths (sd_function sd) \<and> count_ok svc)"
proof -
  from assms have f: "sd_function sd = 1 \<or> sd_function sd = 2"
    by (auto simp: in_range_def)
  from assms obtain t where t: "py_index INPUTTYPES (min (sd_inputtype sd) (MAXTYPE - 1)) = Inr t"
    using py_index_INPUTTYPES[of "sd_inputtype sd"] by (auto simp: in_range_def)
  from assms have c: "0 \<le> sd_count sd" "sd_count sd \<le> MAXCOUNT" by (auto simp: in_range_def)
  from f show ?thesis
  proof
    assume "sd_function sd = 1"
    then show ?thesis using assms(1) c
      by (auto simp: register_gpio_def FUNCTIONS_def INPUT_FUNCTION_COUNTER_def INPUT_FUNCTION_INPUT_def
          Let_def pulses_register_def published_paths_def count_ok_def)
  next
    assume "sd_function sd = 2"
    then show ?thesis using assms(1) c t
      by (auto simp: register_gpio_def FUNCTIONS_def INPUT_FUNCTION_COUNTER_def INPUT_FUNCTION_INPUT_def
          Let_def pulses_register_def published_paths_def count_ok_def)
  qed
qed

lemma unregister_gpio_ok:
  assumes "inp \<in> pulses st" "services st inp = Some svc"
  shows "unregister_gpio st inp =
           Returns (st\<lparr>pulses := pulses st - {inp}, services := (services st)(inp := None)\<rparr>)"
  using assms by (simp add: unregister_gpio_def pulses_unregister_def)

lemma consistent_on_update:
  assumes "consistent_on D st" "dom (settings st') = D'" "line_consistent st' inp"
    and "\<And>j. j \<noteq> inp \<Longrightarrow> settings st' j = settings st j \<and> services st' j = services st j \<and>
                       (j \<in> pulses st' \<longleftrightarrow> j \<in> pulses st)"
  shows "consistent_on D' st'"
  unfolding consistent_on_def
proof (intro conjI allI)
  show "dom (settings st') = D'" by fact
  fix j show "line_consistent st' j"
  proof (cases "j = inp")
    case True then show ?thesis using assms(3) by simp
  next
    case False
    with assms(4) have "line_consistent st' j = line_consistent st j"
      by (intro line_consistent_frame) auto
    with assms(1) show ?thesis by (simp add: consistent_on_def)
  qed
qed

lemma consistent_line: "consistent_on D st \<Longrightarrow> line_consistent st inp"
  by (simp add: consistent_on_def)

lemma consistent_inputs:
  "consistent env st \<Longrightarrow> settings st inp = Some sd \<Longrightarrow> \<exists>path. inputs env inp = Some path"
  by (auto simp: consistent_def consistent_on_def inputs_def)

lemma function_written_consistent:
  assumes con: "consistent env st" and sd: "settings st inp = Some sd" and new: "0 \<le> new" "new \<le> 2"
  shows "\<exists>st'. setting_written env st inp (Function new) = Returns st' \<and> consistent env st'"
proof -
  let ?D = "{1 .. length (inputs_arg env)}"
  let ?sd = "sd\<lparr>sd_function := new\<rparr>"
  let ?st1 = "st\<lparr>settings := (settings st)(inp \<mapsto> ?sd)\<rparr>"
  from con have conD: "consistent_on ?D st" by (simp add: consistent_def)
  from conD have lc: "line_consistent st inp" by (rule consistent_line)
  from conD sd have domD: "dom (settings ?st1) = ?D" by (auto simp: consistent_on_def)
  from lc sd have rng: "in_range sd" by (simp add: line_consistent_def)
  with new have rng': "in_range ?sd" by (simp add: in_range_def)
  from consistent_inputs[OF con sd] obtain path where path: "inputs env inp = Some path" by blast
  have sw: "setting_written env st inp (Function new) =
              handle_setting_change env ?st1 inp (function_change (sd_function sd) new)"
    using sd by (simp add: setting_written_def)
  show ?thesis
  proof (cases "services st inp")
    case None
    with lc sd have off: "inp \<notin> pulses st" "sd_function sd = 0"
      by (auto simp: line_consistent_def)
    show ?thesis
    proof (cases "new = 0")
      case True
      have "line_consistent ?st1 inp" using None off rng' True
        by (simp add: line_consistent_def)
      then have "consistent_on ?D ?st1"
        by (intro consistent_on_update[OF conD domD]) auto
      then show ?thesis using sw off True by (simp add: consistent_def registered_def)
    next
      case False
      have s1: "settings ?st1 inp = Some ?sd" by simp
      from False have nz: "sd_function ?sd \<noteq> 0" by simp
      from register_gpio_ok[OF s1 rng' nz, of env path]
      obtain st' svc where r: "register_gpio env ?st1 path inp new = Returns st'"
        and st': "settings st' = settings ?st1" "pulses st' = insert inp (pulses ?st1)"
          "\<And>j. j \<noteq> inp \<Longrightarrow> services st' j = services ?st1 j"
          "services st' inp = Some svc" "dom (dbusobjects svc) = published_paths new" "count_ok svc"
        by auto
      have "line_consistent st' inp" using st' rng' False
        by (simp add: line_consistent_def)
      then have "consistent_on ?D st'"
        using st' domD by (intro consistent_on_update[OF conD]) auto
      then show ?thesis using sw off False r path
        by (simp add: consistent_def registered_def)
    qed
  next
    case (Some svc0)
    with lc sd have on: "inp \<in> pulses st" "sd_function sd \<noteq> 0"
      by (auto simp: line_consistent_def)
    let ?st2 = "?st1\<lparr>pulses := pulses ?st1 - {inp}, services := (services ?st1)(inp := None)\<rparr>"
    have un: "unregister_gpio ?st1 inp = Returns ?st2"
      using on Some by (intro unregister_gpio_ok) auto
    show ?thesis
    proof (cases "new = 0")
      case True
      have "line_consistent ?st2 inp" using rng' True
        by (simp add: line_consistent_def)
      then have "consistent_on ?D ?st2"
        using domD by (intro consistent_on_update[OF conD]) auto
      then show ?thesis using sw on True un by (simp add: consistent_def)
    next
      case False
      have s2: "settings ?st2 inp = Some ?sd" by simp
      from False have nz: "sd_function ?sd \<noteq> 0" by simp
      from register_gpio_ok[OF s2 rng' nz, of env path]
      obtain st' svc where r: "register_gpio env ?st2 path inp new = Returns st'"
        and st': "settings st' = settings ?st2" "pulses st' = insert inp (pulses ?st2)"
          "\<And>j. j \<noteq> inp \<Longrightarrow> services st' j = services ?st2 j"
          "services st' inp = Some svc" "dom (dbusobjects svc) = published_paths new" "count_ok svc"
        by auto
      have "line_consistent st' inp" using st' rng' False
        by (simp add: line_consistent_def)
      then have "consistent_on ?D st'"
        using st' domD by (intro consistent_on_update[OF conD]) auto
      then show ?thesis using sw on False r path un
        by (simp add: consistent_def registered_def)
    qed
  qed
qed

lemma services_setitem_ok:
  "services st inp = Some svc \<Longrightarrow> dbusobjects svc path = Some w \<Longrightarrow>
   services_setitem st inp path v =
     Returns (st\<lparr>services := (services st)(inp \<mapsto> svc\<lparr>dbusobjects := (dbusobjects svc)(path \<mapsto> v)\<rparr>)\<rparr>)"
  by (simp add: services_setitem_def setitem_def)

lemma published_paths_mem:
  "''/Count'' \<in> published_paths f"
  "''/Aggregate'' \<in> published_paths f \<longleftrightarrow> f = 1"
  "''/State'' \<in> published_paths f \<longleftrightarrow> f = 2"
  "''/Type'' \<in> published_paths f \<longleftrightarrow> f = 2"
  by (auto simp: published_paths_def mandatory_paths_def INPUT_FUNCTION_COUNTER_def INPUT_FUNCTION_INPUT_def)

lemma poll_event_eq:
  assumes svc: "services st inp = Some svc" and sd: "settings st inp = Some sd"
    and dom: "dom (dbusobjects svc) = published_paths (sd_function sd)"
    and c: "dbusobjects svc ''/Count'' = Some (IntV c)"
  shows "poll_event env st inp level =
           Returns (st\<lparr>services := (services st)(inp \<mapsto>
              svc\<lparr>dbusobjects := after_edge env sd c (effective_level sd level) (dbusobjects svc)\<rparr>)\<rparr>)"
proof -
  have agg: "sd_function sd = 1 \<Longrightarrow> \<exists>w. dbusobjects svc ''/Aggregate'' = Some w"
    using dom published_paths_mem(2)[of "sd_function sd"] by auto
  have sta: "sd_function sd = 2 \<Longrightarrow> \<exists>w. dbusobjects svc ''/State'' = Some w"
    using dom published_paths_mem(3)[of "sd_function sd"] by auto
  have triv: "st\<lparr>services := (services st)(inp \<mapsto> svc)\<rparr> = st"
    using svc by (simp add: fun_upd_idem)
  show ?thesis
  proof (cases "sd_function sd = 1")
    case True
    with agg obtain w where "dbusobjects svc ''/Aggregate'' = Some w" by blast
    then show ?thesis using svc sd c True triv
      by (simp add: poll_event_def Let_def getitem_def services_setitem_ok after_edge_def
          effective_level_def INPUT_FUNCTION_COUNTER_def INPUT_FUNCTION_INPUT_def)
  next
    case False
    show ?thesis
    proof (cases "sd_function sd = 2")
      case True
      with sta obtain w where "dbusobjects svc ''/State'' = Some w" by blast
      then show ?thesis using svc sd c True triv
        by (simp add: poll_event_def Let_def getitem_def services_setitem_ok after_edge_def
            effective_level_def INPUT_FUNCTION_COUNTER_def INPUT_FUNCTION_INPUT_def)
    next
      case f2: False
      then show ?thesis using svc sd c False triv
        by (simp add: poll_event_def Let_def getitem_def services_setitem_ok after_edge_def
            effective_level_def INPUT_FUNCTION_COUNTER_def INPUT_FUNCTION_INPUT_def)
    qed
  qed
qed

lemma dom_after_edge:
  "dom objs = published_paths (sd_function sd) \<Longrightarrow> dom (after_edge env sd c lv objs) = dom objs"
  using published_paths_mem[of "sd_function sd"]
  by (auto simp: after_edge_def Let_def)

lemma count_after_edge:
  "after_edge env sd c lv objs ''/Count'' =
     (if lv \<noteq> 0 then Some (IntV ((c + 1) mod MAXCOUNT)) else objs ''/Count'')"
  by (simp add: after_edge_def Let_def)

lemma mod_MAXCOUNT_range: "0 \<le> (c + 1) mod MAXCOUNT \<and> (c + 1) mod MAXCOUNT \<le> MAXCOUNT"
proof -
  have "0 < MAXCOUNT" by (simp add: MAXCOUNT_def)
  then have "0 \<le> (c + 1) mod MAXCOUNT" "(c + 1) mod MAXCOUNT < MAXCOUNT"
    by (rule pos_mod_sign, rule pos_mod_bound)
  then show ?thesis by simp
qed

lemma count_ok_D:
  "count_ok svc \<Longrightarrow> \<exists>c. dbusobjects svc ''/Count'' = Some (IntV c) \<and> 0 \<le> c \<and> c \<le> MAXCOUNT"
  by (auto simp: count_ok_def split: option.splits pyval.splits)

lemma line_consistent_service:
  assumes "line_consistent st inp" "services st inp = Some svc"
  shows "\<exists>sd. settings st inp = Some sd \<and> in_range sd \<and> inp \<in> pulses st \<and> sd_function sd \<noteq> 0 \<and>
           dom (dbusobjects svc) = published_paths (sd_function sd) \<and> count_ok svc"
  using assms by (auto simp: line_consistent_def split: option.splits)

lemma poll_event_consistent:
  assumes con: "consistent_on D st"
  shows "\<exists>st'. poll_event env st inp level = Returns st' \<and> consistent_on D st' \<and>
           settings st' = settings st \<and> pulses st' = pulses st \<and>
           (\<forall>j. j \<noteq> inp \<longrightarrow> services st' j = services st j)"
proof (cases "services st inp")
  case None
  then show ?thesis using con by (simp add: poll_event_def)
next
  case (Some svc)
  from line_consistent_service[OF consistent_line[OF con] Some]
  obtain sd where sd: "settings st inp = Some sd" "in_range sd" "inp \<in> pulses st" "sd_function sd \<noteq> 0"
    and dom: "dom (dbusobjects svc) = published_paths (sd_function sd)" and cok: "count_ok svc"
    by blast
  from count_ok_D[OF cok] obtain c where c: "dbusobjects svc ''/Count'' = Some (IntV c)" "0 \<le> c" "c \<le> MAXCOUNT"
    by blast
  let ?svc = "svc\<lparr>dbusobjects := after_edge env sd c (effective_level sd level) (dbusobjects svc)\<rparr>"
  let ?st = "st\<lparr>services := (services st)(inp \<mapsto> ?svc)\<rparr>"
  have eq: "poll_event env st inp level = Returns ?st"
    by (rule poll_event_eq[OF Some sd(1) dom c(1)])
  have "count_ok ?svc"
    using c mod_MAXCOUNT_range[of c] by (simp add: count_ok_def count_after_edge)
  then have "line_consistent ?st inp"
    using sd dom dom_after_edge[OF dom] by (simp add: line_consistent_def)
  moreover have "dom (settings ?st) = D" using con by (simp add: consistent_on_def)
  ultimately have "consistent_on D ?st"
    by (intro consistent_on_update[OF con]) auto
  then show ?thesis using eq by simp
qed

lemma consistent_settings_update:
  assumes con: "consistent_on D st" and sd: "settings st inp = Some sd"
    and rng: "in_range sd'" and f: "sd_function sd' = sd_function sd"
  shows "consistent_on D (st\<lparr>settings := (settings st)(inp \<mapsto> sd')\<rparr>)"
proof -
  let ?st = "st\<lparr>settings := (settings st)(inp \<mapsto> sd')\<rparr>"
  have "line_consistent ?st inp"
    using consistent_line[OF con, of inp] sd rng f
    by (auto simp: line_consistent_def split: option.splits)
  moreover have "dom (settings ?st) = D" using con sd by (auto simp: consistent_on_def)
  ultimately show ?thesis by (intro consistent_on_update[OF con]) auto
qed

lemma consistent_service_update:
  assumes con: "consistent_on D st" and svc: "services st inp = Some svc"
    and dom: "dom (dbusobjects svc') = dom (dbusobjects svc)" and cok: "count_ok svc'"
  shows "consistent_on D (st\<lparr>services := (services st)(inp \<mapsto> svc')\<rparr>)"
proof -
  let ?st = "st\<lparr>services := (services st)(inp \<mapsto> svc')\<rparr>"
  have "line_consistent ?st inp"
    using consistent_line[OF con, of inp] svc dom cok
    by (auto simp: line_consistent_def split: option.splits)
  moreover have "dom (settings ?st) = D" using con by (auto simp: consistent_on_def)
  ultimately show ?thesis by (intro consistent_on_update[OF con]) auto
qed

lemma consistent_settings_in_range:
  "consistent_on D st \<Longrightarrow> settings st inp = Some sd \<Longrightarrow> in_range sd"
  using consistent_line[of D st inp] by (auto simp: line_consistent_def)

lemma services_setitem_consistent:
  assumes con: "consistent_on D st" and p: "path \<noteq> ''/Count''"
  shows "consistent_on D (state_of (services_setitem st inp path v))"
proof (cases "services st inp")
  case None
  then show ?thesis using con by (simp add: services_setitem_def)
next
  case (Some svc)
  show ?thesis
  proof (cases "dbusobjects svc path")
    case None
    then show ?thesis using con Some by (simp add: services_setitem_def setitem_def)
  next
    case (Some w)
    from line_consistent_service[OF consistent_line[OF con] \<open>services st inp = Some svc\<close>]
    have cok: "count_ok svc" by blast
    let ?svc = "svc\<lparr>dbusobjects := (dbusobjects svc)(path \<mapsto> v)\<rparr>"
    have "dom (dbusobjects ?svc) = dom (dbusobjects svc)" using Some by auto
    moreover have "count_ok ?svc" using cok p by (simp add: count_ok_def)
    ultimately have "consistent_on D (st\<lparr>services := (services st)(inp \<mapsto> ?svc)\<rparr>)"
      by (intro consistent_service_update[OF con \<open>services st inp = Some svc\<close>])
    then show ?thesis
      using services_setitem_ok[OF \<open>services st inp = Some svc\<close> Some] by simp
  qed
qed

lemma setting_written_consistent:
  assumes con: "consistent env st" and v: "valid_setting s"
  shows "consistent env (state_of (setting_written env st inp s))"
proof (cases "settings st inp")
  case None
  then show ?thesis using con by (simp add: setting_written_def)
next
  case (Some sd)
  from con have conD: "consistent_on {1 .. length (inputs_arg env)} st" by (simp add: consistent_def)
  have rng: "in_range sd" by (rule consistent_settings_in_range[OF conD Some])
  show ?thesis
  proof (cases s)
    case (Function new)
    with v function_written_consistent[OF con Some, of new] show ?thesis by auto
  next
    case (Inputtype new)
    let ?st1 = "st\<lparr>settings := (settings st)(inp \<mapsto> sd\<lparr>sd_inputtype := new\<rparr>)\<rparr>"
    have c1: "consistent_on {1 .. length (inputs_arg env)} ?st1"
      using v Inputtype rng by (intro consistent_settings_update[OF conD Some]) (auto simp: in_range_def)
    from v Inputtype obtain t where "py_index INPUTTYPES (min new (MAXTYPE - 1)) = Inr t"
      using py_index_INPUTTYPES[of new] by auto
    then show ?thesis
      using Some Inputtype c1 services_setitem_consistent[OF c1, of "''/Type''" inp "StrV t"]
      by (cases "new = sd_inputtype sd") (simp_all add: setting_written_def consistent_def)
  next
    case (Rate new)
    have "consistent_on {1 .. length (inputs_arg env)} (st\<lparr>settings := (settings st)(inp \<mapsto> sd\<lparr>sd_rate := new\<rparr>)\<rparr>)"
      using rng by (intro consistent_settings_update[OF conD Some]) (auto simp: in_range_def)
    then show ?thesis using Some Rate by (simp add: setting_written_def consistent_def)
  next
    case (Count new)
    have "consistent_on {1 .. length (inputs_arg env)} (st\<lparr>settings := (settings st)(inp \<mapsto> sd\<lparr>sd_count := new\<rparr>)\<rparr>)"
      using rng v Count by (intro consistent_settings_update[OF conD Some]) (auto simp: in_range_def)
    then show ?thesis using Some Count by (simp add: setting_written_def consistent_def)
  next
    case (Invert new)
    have "consistent_on {1 .. length (inputs_arg env)} (st\<lparr>settings := (settings st)(inp \<mapsto> sd\<lparr>sd_invert := new\<rparr>)\<rparr>)"
      using rng v Invert by (intro consistent_settings_update[OF conD Some]) (auto simp: in_range_def)
    then show ?thesis using Some Invert by (simp add: setting_written_def consistent_def)
  qed
qed

lemma keys_inputs_items: "map fst (inputs_items env) = [1 ..< Suc (length (inputs_arg env))]"
  by (simp add: inputs_items_def)

lemma set_keys_inputs_items: "set (map fst (inputs_items env)) = {1 .. length (inputs_arg env)}"
  by (auto simp: keys_inputs_items)

lemma save_loop_ok:
  assumes "consistent_on D st" "set inps \<subseteq> D"
  shows "\<exists>st'. save_loop st inps = Returns st' \<and> consistent_on D st' \<and>
           services st' = services st \<and> pulses st' = pulses st \<and>
           (\<forall>inp. settings st' inp = (if inp \<in> set inps then save_line st inp else settings st inp))"
  using assms
proof (induction inps arbitrary: st)
  case Nil
  then show ?case by simp
next
  case (Cons inp rest)
  from Cons.prems obtain sd where sd: "settings st inp = Some sd"
    by (auto simp: consistent_on_def)
  have rng: "in_range sd" by (rule consistent_settings_in_range[OF Cons.prems(1) sd])
  from Cons.prems have rest: "set rest \<subseteq> D" by simp
  show ?case
  proof (cases "sd_function sd > 0")
    case False
    from Cons.IH[OF Cons.prems(1) rest] obtain st' where
      st': "save_loop st rest = Returns st'" "consistent_on D st'" "services st' = services st"
        "pulses st' = pulses st"
        "\<And>j. settings st' j = (if j \<in> set rest then save_line st j else settings st j)"
      by blast
    have "save_line st inp = settings st inp" using sd False by (simp add: save_line_def)
    then show ?thesis using st' sd False by auto
  next
    case True
    with consistent_line[OF Cons.prems(1), of inp] sd obtain svc where
      svc: "services st inp = Some svc" "count_ok svc"
      by (auto simp: line_consistent_def split: option.splits)
    from count_ok_D[OF svc(2)] obtain c where
      c: "dbusobjects svc ''/Count'' = Some (IntV c)" "0 \<le> c" "c \<le> MAXCOUNT" by blast
    let ?st1 = "st\<lparr>settings := (settings st)(inp \<mapsto> sd\<lparr>sd_count := c\<rparr>)\<rparr>"
    have con1: "consistent_on D ?st1"
      using rng c by (intro consistent_settings_update[OF Cons.prems(1) sd]) (auto simp: in_range_def)
    from Cons.IH[OF con1 rest] obtain st' where
      st': "save_loop ?st1 rest = Returns st'" "consistent_on D st'" "services st' = services ?st1"
        "pulses st' = pulses ?st1"
        "\<And>j. settings st' j = (if j \<in> set rest then save_line ?st1 j else settings ?st1 j)"
      by blast
    have sl: "save_line st inp = Some (sd\<lparr>sd_count := c\<rparr>)"
      using sd True svc c by (simp add: save_line_def published_def)
    have pub: "\<And>j p. published ?st1 j p = published st j p" by (simp add: published_def)
    have sl1: "\<And>j. save_line ?st1 j = save_line st j"
    proof -
      fix j show "save_line ?st1 j = save_line st j"
        using sd True svc c
        by (cases "j = inp") (auto simp: save_line_def published_def split: option.splits pyval.splits)
    qed
    have "save_loop st (inp # rest) = Returns st'"
      using sd True svc c st'(1) by (simp add: getitem_def)
    moreover have "\<And>j. settings st' j = (if j \<in> set (inp # rest) then save_line st j else settings st j)"
      using st'(5) sl sl1 by auto
    ultimately show ?thesis using st' by auto
  qed
qed

lemma init_inputs_ok:
  assumes "consistent_on D st" "\<forall>inp. in_range (stored inp)" "distinct (map fst items)"
    "set (map fst items) \<inter> D = {}"
  shows "\<exists>st'. init_inputs env stored st items = Returns st' \<and>
           consistent_on (D \<union> set (map fst items)) st' \<and>
           (\<forall>inp. settings st' inp =
              (if inp \<in> set (map fst items) then Some (stored inp) else settings st inp))"
  using assms
proof (induction items arbitrary: st D)
  case Nil
  then show ?case by simp
next
  case (Cons item rest)
  obtain inp pth where item: "item = (inp, pth)" by (cases item)
  let ?sd = "stored inp"
  let ?st1 = "st\<lparr>settings := (settings st)(inp \<mapsto> ?sd)\<rparr>"
  from Cons.prems item have notD: "inp \<notin> D" by auto
  with Cons.prems(1) have none: "settings st inp = None" by (auto simp: consistent_on_def)
  with consistent_line[OF Cons.prems(1), of inp]
  have off: "inp \<notin> pulses st" "services st inp = None" by (auto simp: line_consistent_def)
  have rng: "in_range ?sd" using Cons.prems(2) by simp
  have dom1: "dom (settings ?st1) = insert inp D" using Cons.prems(1) by (auto simp: consistent_on_def)
  have rest: "distinct (map fst rest)" "set (map fst rest) \<inter> insert inp D = {}"
    using Cons.prems item by auto
  have fresh: "inp \<notin> set (map fst rest)" using Cons.prems(3) item by simp
  have un: "insert inp D \<union> set (map fst rest) = D \<union> set (map fst (item # rest))"
    using item by auto
  show ?case
  proof (cases "sd_function ?sd > 0")
    case False
    with rng have z: "sd_function ?sd = 0" by (simp add: in_range_def)
    have "line_consistent ?st1 inp" using off rng z by (simp add: line_consistent_def)
    then have con1: "consistent_on (insert inp D) ?st1"
      using dom1 by (intro consistent_on_update[OF Cons.prems(1)]) auto
    from Cons.IH[OF con1 Cons.prems(2) rest] obtain st' where
      st': "init_inputs env stored ?st1 rest = Returns st'"
        "consistent_on (insert inp D \<union> set (map fst rest)) st'"
        "\<And>j. settings st' j = (if j \<in> set (map fst rest) then Some (stored j) else settings ?st1 j)"
      by blast
    have "init_inputs env stored st (item # rest) = Returns st'"
      using st'(1) item False by (simp add: Let_def)
    moreover have "consistent_on (D \<union> set (map fst (item # rest))) st'"
      using st'(2) un by simp
    moreover have "\<And>j. settings st' j =
        (if j \<in> set (map fst (item # rest)) then Some (stored j) else settings st j)"
      using st'(3) item fresh by auto
    ultimately show ?thesis by blast
  next
    case True
    then have nz: "sd_function ?sd \<noteq> 0" by simp
    have s1: "settings ?st1 inp = Some ?sd" by simp
    from register_gpio_ok[OF s1 rng nz, of env pth]
    obtain st2 svc where r: "register_gpio env ?st1 pth inp (sd_function ?sd) = Returns st2"
      and st2: "settings st2 = settings ?st1" "pulses st2 = insert inp (pulses ?st1)"
        "\<And>j. j \<noteq> inp \<Longrightarrow> services st2 j = services ?st1 j"
        "services st2 inp = Some svc" "dom (dbusobjects svc) = published_paths (sd_function ?sd)"
        "count_ok svc"
      by auto
    have "line_consistent st2 inp" using st2 rng nz by (simp add: line_consistent_def)
    then have con2: "consistent_on (insert inp D) st2"
      using st2 dom1 by (intro consistent_on_update[OF Cons.prems(1)]) auto
    from Cons.IH[OF con2 Cons.prems(2) rest] obtain st' where
      st': "init_inputs env stored st2 rest = Returns st'"
        "consistent_on (insert inp D \<union> set (map fst rest)) st'"
        "\<And>j. settings st' j = (if j \<in> set (map fst rest) then Some (stored j) else settings st2 j)"
      by blast
    have "init_inputs env stored st (item # rest) = Returns st'"
      using st'(1) item True r by (simp add: Let_def)
    moreover have "consistent_on (D \<union> set (map fst (item # rest))) st'"
      using st'(2) un by simp
    moreover have "\<And>j. settings st' j =
        (if j \<in> set (map fst (item # rest)) then Some (stored j) else settings st j)"
      using st'(3) st2(1) item fresh by auto
    ultimately show ?thesis by blast
  qed
qed

lemma consistent_initial: "consistent_on {} initial_state"
  by (simp add: consistent_on_def initial_state_def line_consistent_def)

lemma startup_consistent:
  assumes "\<forall>inp. in_range (stored inp)"
  shows "\<exists>st. startup env stored = Returns st \<and> consistent env st \<and>
           (\<forall>inp. settings st inp =
              (if inp \<in> {1 .. length (inputs_arg env)} then Some (stored inp) else None))"
proof -
  have d: "distinct (map fst (inputs_items env))" by (simp add: keys_inputs_items)
  from init_inputs_ok[OF consistent_initial assms d, of env]
  show ?thesis
    unfolding startup_def consistent_def set_keys_inputs_items
    by (auto simp: initial_state_def)
qed

lemma save_counters_consistent:
  "consistent env st \<Longrightarrow> consistent env (state_of (save_counters env st))"
proof -
  assume "consistent env st"
  then have con: "consistent_on {1 .. length (inputs_arg env)} st" by (simp add: consistent_def)
  have sub: "set (map fst (inputs_items env)) \<subseteq> {1 .. length (inputs_arg env)}"
    unfolding set_keys_inputs_items by simp
  from save_loop_ok[OF con sub] obtain st' where
    "save_loop st (map fst (inputs_items env)) = Returns st'"
    "consistent_on {1 .. length (inputs_arg env)} st'" by blast
  then show ?thesis by (simp add: consistent_def save_counters_def)
qed

lemma step_consistent:
  "consistent env st \<Longrightarrow> valid_event e \<Longrightarrow> consistent env (state_of (step env st e))"
proof (cases e)
  case (Written inp s)
  assume "consistent env st" "valid_event e"
  then show ?thesis using Written setting_written_consistent[of env st s inp] by simp
next
  case (Edge inp level)
  assume "consistent env st" "valid_event e"
  then show ?thesis
    using Edge poll_event_consistent[of "{1 .. length (inputs_arg env)}" st env inp level]
    by (auto simp: consistent_def)
next
  case SaveTimer
  assume "consistent env st" "valid_event e"
  then show ?thesis using SaveTimer save_counters_consistent[of env st] by simp
qed

lemma run_consistent:
  "consistent env st \<Longrightarrow> \<forall>e \<in> set es. valid_event e \<Longrightarrow> consistent env (run env st es)"
  by (induction es arbitrary: st) (simp_all add: step_consistent)

section \<open>The scenario states\<close>

lemmas eval_defs = scenario_state_def wrap_state_def startup_def inputs_items_def scenario_env_def
  scenario_stored_def wrap_stored_def initial_state_def register_gpio_def FUNCTIONS_def
  INPUT_FUNCTION_COUNTER_def INPUT_FUNCTION_INPUT_def Let_def pulses_register_def py_index_def
  INPUTTYPES_def MAXTYPE_def published_def add_mandatory_paths_def VeDbusService_init_def
  service_name_def poll_event_def getitem_def services_setitem_def setitem_def MAXCOUNT_def
  setting_written_def registered_def unregister_gpio_def pulses_unregister_def inputs_def
  save_counters_def

lemma in_range_scenario: "\<forall>inp. in_range (scenario_stored inp)"
  by (simp add: in_range_def scenario_stored_def MAXTYPE_def INPUTTYPES_def MAXCOUNT_def)

lemma in_range_wrap: "\<forall>inp. in_range (wrap_stored inp)"
  by (simp add: in_range_def scenario_stored_def wrap_stored_def MAXTYPE_def INPUTTYPES_def MAXCOUNT_def)


lemma consistent_scenario: "consistent scenario_env scenario_state"
  using startup_consistent[OF in_range_scenario, of scenario_env]
  by (auto simp: scenario_state_def)

lemma startup_wrap: "startup scenario_env wrap_stored = Returns wrap_state"
  using startup_consistent[OF in_range_wrap, of scenario_env]
  by (auto simp: wrap_state_def)

lemma consistent_wrap: "consistent scenario_env wrap_state"
  using startup_consistent[OF in_range_wrap, of scenario_env]
  by (auto simp: wrap_state_def)

section \<open>Edges, registration and switching\<close>

lemma published_Some:
  "published st inp path = Some v \<longleftrightarrow> (\<exists>svc. services st inp = Some svc \<and> dbusobjects svc path = Some v)"
  by (simp add: published_def split: option.splits)

lemma rising_Cons:
  "rising sd inp ((j, level) # events) =
     (if j = inp \<and> effective_level sd level \<noteq> 0 then Suc (rising sd inp events) else rising sd inp events)"
  by (simp add: rising_def)

lemma poll_count:
  assumes "consistent_on D st" "settings st inp = Some sd" "published st inp ''/Count'' = Some (IntV c0)"
  shows "\<exists>st'. poll env st events = Returns st' \<and> consistent_on D st' \<and> settings st' = settings st \<and>
           published st' inp ''/Count'' =
             Some (IntV (if rising sd inp events = 0 then c0
                         else (c0 + int (rising sd inp events)) mod MAXCOUNT))"
  using assms
proof (induction events arbitrary: st c0)
  case Nil
  then show ?case by (simp add: rising_def)
next
  case (Cons ev events)
  obtain j level where ev: "ev = (j, level)" by (cases ev)
  from poll_event_consistent[OF Cons.prems(1), of env j level] obtain st1 where
    st1: "poll_event env st j level = Returns st1" "consistent_on D st1" "settings st1 = settings st"
      "\<And>i. i \<noteq> j \<Longrightarrow> services st1 i = services st i"
    by blast
  from Cons.prems(3) obtain svc where svc: "services st inp = Some svc"
    "dbusobjects svc ''/Count'' = Some (IntV c0)" by (auto simp: published_Some)
  define c1 where "c1 = (if j = inp \<and> effective_level sd level \<noteq> 0 then (c0 + 1) mod MAXCOUNT else c0)"
  have p1: "published st1 inp ''/Count'' = Some (IntV c1)"
  proof (cases "j = inp")
    case False
    then show ?thesis using st1(4)[of inp] Cons.prems(3) by (simp add: published_def c1_def)
  next
    case True
    from line_consistent_service[OF consistent_line[OF Cons.prems(1)] svc(1)] Cons.prems(2)
    have dom: "dom (dbusobjects svc) = published_paths (sd_function sd)" by auto
    from poll_event_eq[OF svc(1) Cons.prems(2) dom svc(2), of env level] st1(1) True
    show ?thesis using svc(2) by (auto simp: published_def count_after_edge c1_def)
  qed
  from Cons.IH[OF st1(2) _ p1] Cons.prems(2) st1(3) obtain st' where
    st': "poll env st1 events = Returns st'" "consistent_on D st'" "settings st' = settings st1"
      "published st' inp ''/Count'' =
         Some (IntV (if rising sd inp events = 0 then c1 else (c1 + int (rising sd inp events)) mod MAXCOUNT))"
    by auto
  have arith: "(if rising sd inp events = 0 then c1 else (c1 + int (rising sd inp events)) mod MAXCOUNT) =
        (if rising sd inp (ev # events) = 0 then c0
         else (c0 + int (rising sd inp (ev # events))) mod MAXCOUNT)"
  proof -
    have m: "\<And>n::int. (n + (1 + c0) mod MAXCOUNT) mod MAXCOUNT = (1 + (c0 + n)) mod MAXCOUNT"
      by (simp add: mod_add_right_eq add.commute add.left_commute)
    show ?thesis unfolding ev rising_Cons c1_def
      by (auto simp: m add.commute add.left_commute)
  qed
  show ?case using st' st1 arith ev by simp
qed

lemma poll_event_count:
  assumes con: "consistent_on D st" and sd: "settings st inp = Some sd"
    and c: "published st inp ''/Count'' = Some (IntV c)"
  shows "\<exists>st'. poll_event env st inp level = Returns st' \<and>
           published st' inp ''/Count'' =
             Some (IntV (if effective_level sd level \<noteq> 0 then (c + 1) mod MAXCOUNT else c))"
proof -
  from c obtain svc where svc: "services st inp = Some svc"
    "dbusobjects svc ''/Count'' = Some (IntV c)" by (auto simp: published_Some)
  from line_consistent_service[OF consistent_line[OF con] svc(1)] sd
  have dom: "dom (dbusobjects svc) = published_paths (sd_function sd)" by auto
  show ?thesis
    using poll_event_eq[OF svc(1) sd dom svc(2), of env level] svc(2)
    by (simp add: published_def count_after_edge)
qed

lemma consistent_function_service:
  assumes "consistent_on D st" "settings st inp = Some sd" "sd_function sd \<noteq> 0"
  shows "\<exists>svc. services st inp = Some svc \<and> dom (dbusobjects svc) = published_paths (sd_function sd) \<and>
           count_ok svc"
  using consistent_line[OF assms(1), of inp] assms(2,3)
  by (auto simp: line_consistent_def split: option.splits)

lemma poll_event_state:
  assumes con: "consistent_on D st" and sd: "settings st inp = Some sd"
    and f: "sd_function sd = 2"
  shows "\<exists>st'. poll_event env st inp level = Returns st' \<and>
           published st' inp ''/State'' = Some (IntV (if effective_level sd level \<noteq> 0 then 1 else 0))"
proof -
  from consistent_function_service[OF con sd] f obtain svc where
    svc: "services st inp = Some svc" "dom (dbusobjects svc) = published_paths (sd_function sd)"
      "count_ok svc" by auto
  from count_ok_D[OF svc(3)] obtain c where c: "dbusobjects svc ''/Count'' = Some (IntV c)" by blast
  show ?thesis
    using poll_event_eq[OF svc(1) sd svc(2) c, of env level] f
    by (simp add: published_def after_edge_def Let_def)
qed

lemma effective_level_bit:
  assumes "level = 0 \<or> level = 1" "sd_invert sd = 0 \<or> sd_invert sd = 1"
  shows "effective_level sd level = level XOR sd_invert sd"
    "level XOR sd_invert sd = 0 \<or> level XOR sd_invert sd = 1"
  using assms by (auto simp: effective_level_def)

lemma invert_written:
  "settings st inp = Some sd \<Longrightarrow>
   setting_written env st inp (Invert v) =
     Returns (st\<lparr>settings := (settings st)(inp \<mapsto> sd\<lparr>sd_invert := v\<rparr>)\<rparr>)"
  by (simp add: setting_written_def)

lemma py_index_catalog:
  "0 \<le> t \<Longrightarrow> py_index INPUTTYPES (min t (MAXTYPE - 1)) = Inr (catalog_entry t)"
  by (auto simp: py_index_def catalog_entry_def MAXTYPE_def INPUTTYPES_def min_def)


lemma consistent_run_scenario:
  "list_all valid_event es \<Longrightarrow> consistent scenario_env (run scenario_env scenario_state es)"
  by (rule run_consistent[OF consistent_scenario]) (simp only: list_all_iff)











section \<open>The aggregate of a counter\<close>


















section \<open>The claims\<close>

text \<open>
  Every state reached from start-up by events whose written values are within the
  ranges of \<open>supported_settings\<close> is consistent (\<open>startup_consistent\<close>,
  \<open>run_consistent\<close>); the statements below that assume a consistent state hold in
  all of them.
\<close>

text \<open>
  C1 (amended). For every line with a service, in a consistent state, the poll loop
  over any list of events returns, and afterwards the published \<open>/Count\<close> of the line
  is its initial value \<open>c0\<close> if the list holds no rising detection of the line, and
  \<open>(c0 + N) mod (2^31 - 1)\<close> if it holds \<open>N > 0\<close> of them, however they are
  interleaved with falling events and with events of other lines.
\<close>

theorem poll_count_after_rising:
  assumes "consistent env st" "settings st inp = Some sd"
    "published st inp ''/Count'' = Some (IntV c0)"
  shows "\<exists>st'. poll env st events = Returns st' \<and>
           published st' inp ''/Count'' =
             Some (IntV (if rising sd inp events = 0 then c0
                         else (c0 + int (rising sd inp events)) mod MAXCOUNT))"
proof -
  from assms(1) have "consistent_on {1 .. length (inputs_arg env)} st"
    by (simp add: consistent_def)
  from poll_count[OF this assms(2,3), of env events] show ?thesis by blast
qed

theorem poll_count_after_rising_witness:
  "consistent scenario_env scenario_state \<and>
   settings scenario_state 1 = Some (scenario_stored 1) \<and>
   published scenario_state 1 ''/Count'' = Some (IntV 5) \<and>
   (\<exists>st'. poll scenario_env scenario_state [(1, 1), (1, 0), (2, 1), (1, 1), (2, 0), (1, 1)] = Returns st' \<and>
          published st' 1 ''/Count'' = Some (IntV 8))"
proof -
  have s: "settings scenario_state 1 = Some (scenario_stored 1)"
    by (simp add: eval_defs)
  have c: "published scenario_state 1 ''/Count'' = Some (IntV 5)"
    by (simp add: eval_defs)
  have r: "rising (scenario_stored 1) 1 [(1, 1), (1, 0), (2, 1), (1, 1), (2, 0), (1, 1)] = 3"
    by (simp add: rising_def effective_level_def scenario_stored_def)
  have m: "(if (3::nat) = 0 then 5 else (5 + int 3) mod MAXCOUNT) = 8"
    by (simp add: MAXCOUNT_def)
  from poll_count_after_rising[OF consistent_scenario s c,
      of "[(1, 1), (1, 0), (2, 1), (1, 1), (2, 0), (1, 1)]"]
  have "\<exists>st'. poll scenario_env scenario_state [(1, 1), (1, 0), (2, 1), (1, 1), (2, 0), (1, 1)] = Returns st' \<and>
          published st' 1 ''/Count'' = Some (IntV 8)"
    unfolding r m .
  with consistent_scenario s c show ?thesis by blast
qed

text \<open>
  The claim as stated fails for a line seeded with the count 2^31 - 1, the maximum of
  the setting \<open>count\<close>: with no rising detection the published count stays 2^31 - 1,
  while \<open>(2^31 - 1 + 0) mod (2^31 - 1)\<close> is 0.
\<close>

theorem poll_count_seed_counterexample:
  "in_range (wrap_stored 1) \<and>
   startup scenario_env wrap_stored = Returns wrap_state \<and>
   published wrap_state 1 ''/Count'' = Some (IntV MAXCOUNT) \<and>
   rising (wrap_stored 1) 1 [(1, 0)] = 0 \<and>
   published (state_of (poll scenario_env wrap_state [(1, 0)])) 1 ''/Count'' = Some (IntV MAXCOUNT) \<and>
   (MAXCOUNT + int (rising (wrap_stored 1) 1 [(1, 0)])) mod MAXCOUNT = 0"
proof -
  have "published wrap_state 1 ''/Count'' = Some (IntV MAXCOUNT)"
    by (simp add: eval_defs)
  moreover have "rising (wrap_stored 1) 1 [(1, 0)] = 0"
    by (simp add: rising_def effective_level_def wrap_stored_def scenario_stored_def)
  moreover have "published (state_of (poll scenario_env wrap_state [(1, 0)])) 1 ''/Count'' = Some (IntV MAXCOUNT)"
    by (simp add: eval_defs)
  ultimately show ?thesis using in_range_wrap startup_wrap by simp
qed

text \<open>
  C2 (amended). In every state reached from start-up (settings within their ranges)
  by events whose written values are within their ranges, the published \<open>/Count\<close> of
  a line lies between 0 and 2^31 - 1, the largest value being possible only as the
  seed taken from the setting. An event leaves it unchanged when the level after inversion is falsy, and
  otherwise replaces it by \<open>(count + 1) mod (2^31 - 1)\<close>, which is below 2^31 - 1:
  from 2^31 - 2 the increment gives 0, and from the seed 2^31 - 1 it gives 1.
\<close>

theorem count_wraps_below_bound:
  assumes "\<forall>inp. in_range (stored inp)" "\<forall>e \<in> set es. valid_event e"
    "startup env stored = Returns st0" "st = run env st0 es"
    "settings st inp = Some sd" "published st inp ''/Count'' = Some (IntV c)"
  shows "0 \<le> c \<and> c \<le> MAXCOUNT \<and>
         (\<exists>st' c'. poll_event env st inp level = Returns st' \<and>
            published st' inp ''/Count'' = Some (IntV c') \<and>
            c' = (if effective_level sd level \<noteq> 0 then (c + 1) mod MAXCOUNT else c) \<and>
            0 \<le> c' \<and> c' \<le> MAXCOUNT \<and>
            (if effective_level sd level = 0 then c' = c
             else c' < MAXCOUNT \<and>
                  (if c = MAXCOUNT - 1 then c' = 0 else if c = MAXCOUNT then c' = 1 else c' = c + 1)))"
proof -
  from startup_consistent[OF assms(1), of env] assms(3) have "consistent env st0" by auto
  from run_consistent[OF this assms(2)] assms(4)
  have con: "consistent_on {1 .. length (inputs_arg env)} st"
    by (simp add: consistent_def)
  from assms(6) obtain svc where svc: "services st inp = Some svc"
    "dbusobjects svc ''/Count'' = Some (IntV c)" by (auto simp: published_Some)
  from line_consistent_service[OF consistent_line[OF con] svc(1)]
  have "count_ok svc" by blast
  with svc(2) have rng: "0 \<le> c" "c \<le> MAXCOUNT" by (auto simp: count_ok_def)
  have w: "c = MAXCOUNT - 1 \<Longrightarrow> (c + 1) mod MAXCOUNT = 0"
    "c = MAXCOUNT \<Longrightarrow> (c + 1) mod MAXCOUNT = 1"
    "c < MAXCOUNT - 1 \<Longrightarrow> (c + 1) mod MAXCOUNT = c + 1"
    using rng by (simp_all add: MAXCOUNT_def)
  have b: "(c + 1) mod MAXCOUNT < MAXCOUNT" "0 \<le> (c + 1) mod MAXCOUNT"
    by (simp_all add: MAXCOUNT_def)
  from poll_event_count[OF con assms(5,6), of env level] obtain st' where
    st': "poll_event env st inp level = Returns st'"
      "published st' inp ''/Count'' =
         Some (IntV (if effective_level sd level \<noteq> 0 then (c + 1) mod MAXCOUNT else c))"
    by blast
  show ?thesis using rng st' w b by auto
qed

theorem count_wraps_below_bound_witness:
  "(\<forall>inp. in_range (wrap_stored inp)) \<and>
   startup scenario_env wrap_stored = Returns wrap_state \<and>
   wrap_state = run scenario_env wrap_state [] \<and>
   settings wrap_state 1 = Some (wrap_stored 1) \<and>
   published wrap_state 1 ''/Count'' = Some (IntV MAXCOUNT) \<and>
   (\<exists>st'. poll_event scenario_env wrap_state 1 1 = Returns st' \<and>
          published st' 1 ''/Count'' = Some (IntV 1))"
proof -
  have v: "\<forall>e \<in> set ([] :: rat event list). valid_event e" by simp
  have r: "wrap_state = run scenario_env wrap_state []" by simp
  have s: "settings wrap_state 1 = Some (wrap_stored 1)"
    by (simp add: eval_defs)
  have c: "published wrap_state 1 ''/Count'' = Some (IntV MAXCOUNT)"
    by (simp add: eval_defs)
  have e: "effective_level (wrap_stored 1) 1 = 1"
    by (simp add: effective_level_def wrap_stored_def scenario_stored_def)
  from count_wraps_below_bound[OF in_range_wrap v startup_wrap r s c, of 1]
  have "\<exists>st'. poll_event scenario_env wrap_state 1 1 = Returns st' \<and>
          published st' 1 ''/Count'' = Some (IntV 1)"
    unfolding e by (auto simp: MAXCOUNT_def)
  with in_range_wrap startup_wrap r s c show ?thesis by blast
qed

text \<open>
  The claim as stated fails where the count has reached the bound itself: seeded with
  2^31 - 1, the next increment publishes 1, not 0.
\<close>

theorem count_at_bound_counterexample:
  "in_range (wrap_stored 1) \<and>
   startup scenario_env wrap_stored = Returns wrap_state \<and>
   published wrap_state 1 ''/Count'' = Some (IntV (2 ^ 31 - 1)) \<and>
   effective_level (wrap_stored 1) 1 = 1 \<and>
   published (state_of (poll_event scenario_env wrap_state 1 1)) 1 ''/Count'' = Some (IntV 1)"
proof -
  have "published wrap_state 1 ''/Count'' = Some (IntV (2 ^ 31 - 1))"
    by (simp add: eval_defs)
  moreover have "effective_level (wrap_stored 1) 1 = 1"
    by (simp add: effective_level_def wrap_stored_def scenario_stored_def)
  moreover have "published (state_of (poll_event scenario_env wrap_state 1 1)) 1 ''/Count'' = Some (IntV 1)"
    by (simp add: eval_defs)
  ultimately show ?thesis using in_range_wrap startup_wrap by simp
qed

text \<open>
  C6. An event for a line that has no entry in \<open>services\<close> is dropped: the loop body
  returns without an exception and with the state unchanged, so the loop continues
  with the remaining events as if the event had not been there.
\<close>

theorem unknown_line_dropped:
  assumes "services st inp = None"
  shows "poll_event env st inp level = Returns st \<and>
         poll env st ((inp, level) # events) = poll env st events"
  using assms by (simp add: poll_event_def)

theorem unknown_line_dropped_witness:
  "services (run scenario_env scenario_state [Written 1 (Function 0)]) 1 = None \<and>
   poll_event scenario_env (run scenario_env scenario_state [Written 1 (Function 0)]) 1 1 =
     Returns (run scenario_env scenario_state [Written 1 (Function 0)]) \<and>
   poll scenario_env (run scenario_env scenario_state [Written 1 (Function 0)]) [(1, 1), (2, 0)] =
     poll scenario_env (run scenario_env scenario_state [Written 1 (Function 0)]) [(2, 0)]"
proof -
  have n: "services (run scenario_env scenario_state [Written 1 (Function 0)]) 1 = None"
    by (simp add: eval_defs)
  from unknown_line_dropped[OF n, of scenario_env 1 "[(2, 0)]"] n show ?thesis by blast
qed

text \<open>
  C3 (amended). For an event with level 0 or 1 on a level-sensor line, the published
  \<open>/State\<close> is the event level XOR the setting \<open>invert\<close>, and \<open>/Count\<close> is incremented
  exactly when that value is 1. After \<open>invert\<close> has been toggled, the same event
  publishes the opposite \<open>/State\<close>, and it increments \<open>/Count\<close> exactly when it did not
  before: the rule "increment when the level after inversion is truthy" is unchanged,
  the physical level that increments is the other one.
\<close>

theorem state_is_level_xor_inverted:
  assumes "consistent env st" "settings st inp = Some sd"
    "sd_function sd = INPUT_FUNCTION_INPUT" "level = 0 \<or> level = 1"
    "published st inp ''/Count'' = Some (IntV c)"
  shows "\<exists>st' toggled toggled'.
           poll_event env st inp level = Returns st' \<and>
           published st' inp ''/State'' = Some (IntV (level XOR sd_invert sd)) \<and>
           published st' inp ''/Count'' =
             Some (IntV (if level XOR sd_invert sd = 1 then (c + 1) mod MAXCOUNT else c)) \<and>
           setting_written env st inp (Invert (1 - sd_invert sd)) = Returns toggled \<and>
           poll_event env toggled inp level = Returns toggled' \<and>
           published toggled' inp ''/State'' = Some (IntV (1 - (level XOR sd_invert sd))) \<and>
           published toggled' inp ''/Count'' =
             Some (IntV (if level XOR sd_invert sd = 1 then c else (c + 1) mod MAXCOUNT))"
proof -
  let ?D = "{1 .. length (inputs_arg env)}"
  let ?sd = "sd\<lparr>sd_invert := 1 - sd_invert sd\<rparr>"
  let ?t = "st\<lparr>settings := (settings st)(inp \<mapsto> ?sd)\<rparr>"
  from assms(1) have con: "consistent_on ?D st" by (simp add: consistent_def)
  have rng: "in_range sd" by (rule consistent_settings_in_range[OF con assms(2)])
  then have inv: "sd_invert sd = 0 \<or> sd_invert sd = 1" by (auto simp: in_range_def)
  have f: "sd_function sd = 2" using assms(3) by (simp add: INPUT_FUNCTION_INPUT_def)
  have rng': "in_range ?sd" using rng inv by (auto simp: in_range_def)
  have cont: "consistent_on ?D ?t"
    by (rule consistent_settings_update[OF con assms(2) rng']) simp
  have st: "settings ?t inp = Some ?sd" by simp
  have ft: "sd_function ?sd = 2" using f by simp
  have ct: "published ?t inp ''/Count'' = Some (IntV c)" using assms(5) by (simp add: published_def)
  have inv': "sd_invert ?sd = 0 \<or> sd_invert ?sd = 1" using inv by auto
  note e = effective_level_bit[OF assms(4) inv]
  note e' = effective_level_bit[OF assms(4) inv']
  have x: "level XOR sd_invert ?sd = 1 - (level XOR sd_invert sd)"
    using assms(4) inv by auto
  from poll_event_state[OF con assms(2) f, of env level] poll_event_count[OF con assms(2,5), of env level]
  obtain st' where st': "poll_event env st inp level = Returns st'"
    "published st' inp ''/State'' = Some (IntV (if effective_level sd level \<noteq> 0 then 1 else 0))"
    "published st' inp ''/Count'' =
       Some (IntV (if effective_level sd level \<noteq> 0 then (c + 1) mod MAXCOUNT else c))"
    by auto
  from poll_event_state[OF cont st ft, of env level] poll_event_count[OF cont st ct, of env level]
  obtain t' where t': "poll_event env ?t inp level = Returns t'"
    "published t' inp ''/State'' = Some (IntV (if effective_level ?sd level \<noteq> 0 then 1 else 0))"
    "published t' inp ''/Count'' =
       Some (IntV (if effective_level ?sd level \<noteq> 0 then (c + 1) mod MAXCOUNT else c))"
    by auto
  have a: "published st' inp ''/State'' = Some (IntV (level XOR sd_invert sd))"
    "published st' inp ''/Count'' =
       Some (IntV (if level XOR sd_invert sd = 1 then (c + 1) mod MAXCOUNT else c))"
    using st'(2,3) e by auto
  have b: "published t' inp ''/State'' = Some (IntV (1 - (level XOR sd_invert sd)))"
    "published t' inp ''/Count'' =
       Some (IntV (if level XOR sd_invert sd = 1 then c else (c + 1) mod MAXCOUNT))"
    using t'(2,3) e' e(2) unfolding x by auto
  show ?thesis
    using st'(1) a invert_written[OF assms(2), of env "1 - sd_invert sd"] t'(1) b by blast
qed

theorem state_is_level_xor_inverted_witness:
  "consistent scenario_env scenario_state \<and>
   settings scenario_state 2 = Some (scenario_stored 2) \<and>
   sd_function (scenario_stored 2) = INPUT_FUNCTION_INPUT \<and>
   sd_invert (scenario_stored 2) = 1 \<and>
   published scenario_state 2 ''/Count'' = Some (IntV 0) \<and>
   (\<exists>st' toggled toggled'.
      poll_event scenario_env scenario_state 2 1 = Returns st' \<and>
      published st' 2 ''/State'' = Some (IntV 0) \<and>
      published st' 2 ''/Count'' = Some (IntV 0) \<and>
      setting_written scenario_env scenario_state 2 (Invert 0) = Returns toggled \<and>
      poll_event scenario_env toggled 2 1 = Returns toggled' \<and>
      published toggled' 2 ''/State'' = Some (IntV 1) \<and>
      published toggled' 2 ''/Count'' = Some (IntV 1))"
proof -
  have s: "settings scenario_state 2 = Some (scenario_stored 2)"
    by (simp add: eval_defs)
  have f: "sd_function (scenario_stored 2) = INPUT_FUNCTION_INPUT"
    by (simp add: scenario_stored_def INPUT_FUNCTION_INPUT_def)
  have i: "sd_invert (scenario_stored 2) = 1"
    by (simp add: scenario_stored_def)
  have l: "(1::int) = 0 \<or> (1::int) = 1" by simp
  have c: "published scenario_state 2 ''/Count'' = Some (IntV 0)"
    by (simp add: eval_defs)
  have m: "1 mod MAXCOUNT = 1" by (simp add: MAXCOUNT_def)
  from state_is_level_xor_inverted[OF consistent_scenario s f l c]
  have "\<exists>st' toggled toggled'.
      poll_event scenario_env scenario_state 2 1 = Returns st' \<and>
      published st' 2 ''/State'' = Some (IntV 0) \<and>
      published st' 2 ''/Count'' = Some (IntV 0) \<and>
      setting_written scenario_env scenario_state 2 (Invert 0) = Returns toggled \<and>
      poll_event scenario_env toggled 2 1 = Returns toggled' \<and>
      published toggled' 2 ''/State'' = Some (IntV 1) \<and>
      published toggled' 2 ''/Count'' = Some (IntV 1)"
    unfolding i by (simp add: m)
  with consistent_scenario s f i c show ?thesis by blast
qed

text \<open>
  The claim as stated fails in its last part: toggling \<open>invert\<close> does alter which
  physical edges increment \<open>/Count\<close>. On the inverted line 2 an event with level 1
  leaves the count at 0; once \<open>invert\<close> is written to 0 the same event increments it.
\<close>

theorem inverted_changes_counted_edge_counterexample:
  "sd_invert (scenario_stored 2) = 1 \<and>
   published scenario_state 2 ''/Count'' = Some (IntV 0) \<and>
   published (run scenario_env scenario_state [Edge 2 1]) 2 ''/Count'' = Some (IntV 0) \<and>
   published (run scenario_env scenario_state [Written 2 (Invert 0), Edge 2 1]) 2 ''/Count'' =
     Some (IntV 1)"
  by (simp add: eval_defs)

text \<open>
  C4. For a type index \<open>t\<close> that is not negative, \<open>register_gpio\<close> for a level sensor
  and the handler of a change of \<open>inputtype\<close> to \<open>t\<close> on a line that publishes \<open>/Type\<close>
  both return without an exception and publish as \<open>/Type\<close> the catalog's last entry
  when \<open>t\<close> is at least the catalog size, and the entry at index \<open>t\<close> otherwise.
\<close>

theorem type_clamped_to_catalog:
  assumes "0 \<le> t" "settings st gpio = Some sd" "sd_inputtype sd = t"
    "published st2 inp ''/Type'' = Some w" "old \<noteq> t"
  shows "(\<exists>s. register_gpio env st path gpio INPUT_FUNCTION_INPUT = Returns s \<and>
              published s gpio ''/Type'' = Some (StrV (catalog_entry t))) \<and>
         (\<exists>s. handle_setting_change env st2 inp (inputtype_change old t) = Returns s \<and>
              published s inp ''/Type'' = Some (StrV (catalog_entry t))) \<and>
         catalog_entry t = (if MAXTYPE \<le> t then last INPUTTYPES else INPUTTYPES ! nat t)"
proof -
  note p = py_index_catalog[OF assms(1)]
  have a: "\<exists>s. register_gpio env st path gpio INPUT_FUNCTION_INPUT = Returns s \<and>
              published s gpio ''/Type'' = Some (StrV (catalog_entry t))"
    using assms(2,3) p
    by (simp add: register_gpio_def FUNCTIONS_def INPUT_FUNCTION_COUNTER_def INPUT_FUNCTION_INPUT_def
        Let_def pulses_register_def published_def)
  from assms(4) obtain svc where svc: "services st2 inp = Some svc" "dbusobjects svc ''/Type'' = Some w"
    by (auto simp: published_Some)
  have b: "\<exists>s. handle_setting_change env st2 inp (inputtype_change old t) = Returns s \<and>
              published s inp ''/Type'' = Some (StrV (catalog_entry t))"
    using assms(5) p services_setitem_ok[OF svc, of "StrV (catalog_entry t)"]
    by (simp add: published_def)
  show ?thesis using a b by (simp add: catalog_entry_def)
qed

theorem type_clamped_to_catalog_witness:
  "settings scenario_state 2 = Some (scenario_stored 2) \<and>
   sd_inputtype (scenario_stored 2) = 6 \<and>
   published (run scenario_env scenario_state [Written 2 (Inputtype 3)]) 2 ''/Type'' =
     Some (StrV ''Smoke alarm'') \<and>
   (\<exists>s. register_gpio scenario_env scenario_state ''/in/1'' 2 INPUT_FUNCTION_INPUT = Returns s \<and>
        published s 2 ''/Type'' = Some (StrV ''CO2 alarm'')) \<and>
   (\<exists>s. handle_setting_change scenario_env (run scenario_env scenario_state [Written 2 (Inputtype 3)]) 2
          (inputtype_change 3 6) = Returns s \<and>
        published s 2 ''/Type'' = Some (StrV ''CO2 alarm''))"
proof -
  have s: "settings scenario_state 2 = Some (scenario_stored 2)"
    by (simp add: eval_defs)
  have t: "sd_inputtype (scenario_stored 2) = 6"
    by (simp add: scenario_stored_def)
  have w: "published (run scenario_env scenario_state [Written 2 (Inputtype 3)]) 2 ''/Type'' =
     Some (StrV ''Smoke alarm'')"
    by (simp add: eval_defs)
  have c: "catalog_entry 6 = ''CO2 alarm''"
    by (simp add: catalog_entry_def MAXTYPE_def INPUTTYPES_def)
  have z: "(0::int) \<le> 6" "(3::int) \<noteq> 6" by simp_all
  from type_clamped_to_catalog[OF z(1) s t w z(2), of scenario_env "''/in/1''"]
  show ?thesis using s t w unfolding c by blast
qed

text \<open>
  C10. In a consistent state, the handler of a change of \<open>inputtype\<close> to a new value
  (not negative, different from the old one) returns only for a line whose function
  is level sensor. For a disabled line (no entry in \<open>services\<close>) and for a counter
  (a service without the path \<open>/Type\<close>) it raises \<open>KeyError\<close> and leaves the state
  as it was.
\<close>

theorem inputtype_change_needs_level_sensor:
  assumes "consistent env st" "settings st inp = Some sd" "new \<noteq> old" "0 \<le> new"
  shows "if sd_function sd = INPUT_FUNCTION_INPUT
         then \<exists>st'. handle_setting_change env st inp (inputtype_change old new) = Returns st'
         else published st inp ''/Type'' = None \<and>
              (services st inp = None \<longleftrightarrow> sd_function sd = 0) \<and>
              handle_setting_change env st inp (inputtype_change old new) = Raises KeyError st"
proof -
  from assms(1) have con: "consistent_on {1 .. length (inputs_arg env)} st"
    by (simp add: consistent_def)
  note p = py_index_catalog[OF assms(4)]
  show ?thesis
  proof (cases "sd_function sd = 0")
    case True
    with consistent_line[OF con, of inp] assms(2) have "services st inp = None"
      by (auto simp: line_consistent_def split: option.splits)
    then show ?thesis using True assms(3) p
      by (simp add: INPUT_FUNCTION_INPUT_def published_def services_setitem_def)
  next
    case False
    from consistent_function_service[OF con assms(2) False] obtain svc where
      svc: "services st inp = Some svc" "dom (dbusobjects svc) = published_paths (sd_function sd)"
      by blast
    show ?thesis
    proof (cases "sd_function sd = 2")
      case True
      with svc(2) published_paths_mem(4)[of "sd_function sd"]
      obtain w where "dbusobjects svc ''/Type'' = Some w" by auto
      from services_setitem_ok[OF svc(1) this] show ?thesis
        using True assms(3) p by (simp add: INPUT_FUNCTION_INPUT_def)
    next
      case f: False
      with svc(2) published_paths_mem(4)[of "sd_function sd"]
      have "dbusobjects svc ''/Type'' = None" by auto
      then show ?thesis using f False svc(1) assms(3) p
        by (simp add: INPUT_FUNCTION_INPUT_def published_def services_setitem_def setitem_def)
    qed
  qed
qed

theorem inputtype_change_needs_level_sensor_witness:
  "consistent scenario_env scenario_state \<and>
   settings scenario_state 1 = Some (scenario_stored 1) \<and>
   sd_function (scenario_stored 1) = INPUT_FUNCTION_COUNTER \<and>
   published scenario_state 1 ''/Type'' = None \<and>
   handle_setting_change scenario_env scenario_state 1 (inputtype_change 0 3) =
     Raises KeyError scenario_state"
proof -
  have s: "settings scenario_state 1 = Some (scenario_stored 1)"
    by (simp add: eval_defs)
  have f: "sd_function (scenario_stored 1) = INPUT_FUNCTION_COUNTER"
    "sd_function (scenario_stored 1) \<noteq> INPUT_FUNCTION_INPUT"
    by (simp_all add: scenario_stored_def INPUT_FUNCTION_COUNTER_def INPUT_FUNCTION_INPUT_def)
  have z: "(3::int) \<noteq> 0" "(0::int) \<le> 3" by simp_all
  from inputtype_change_needs_level_sensor[OF consistent_scenario s z]
  have "published scenario_state 1 ''/Type'' = None \<and>
        handle_setting_change scenario_env scenario_state 1 (inputtype_change 0 3) =
          Raises KeyError scenario_state"
    using f(2) by simp
  then show ?thesis using consistent_scenario s f(1) by blast
qed



text \<open>
  C8. In a consistent state \<open>save_counters\<close> returns; for every line whose setting
  \<open>function\<close> is greater than 0 the setting \<open>count\<close> becomes the published \<open>/Count\<close>
  and the other four settings stay as they were; the settings of every other line
  are unchanged; \<open>services\<close> and the pulse counter are unchanged.
\<close>

theorem save_counters_copies_enabled_counts:
  assumes "consistent env st"
  shows "\<exists>st'. save_counters env st = Returns st' \<and>
           services st' = services st \<and> pulses st' = pulses st \<and>
           (\<forall>inp sd. settings st inp = Some sd \<longrightarrow>
              (if sd_function sd > 0
               then \<exists>c. published st inp ''/Count'' = Some (IntV c) \<and>
                        settings st' inp = Some (sd\<lparr>sd_count := c\<rparr>)
               else settings st' inp = Some sd)) \<and>
           (\<forall>inp. settings st inp = None \<longrightarrow> settings st' inp = None)"
proof -
  let ?D = "{1 .. length (inputs_arg env)}"
  from assms have con: "consistent_on ?D st" by (simp add: consistent_def)
  have sub: "set (map fst (inputs_items env)) \<subseteq> ?D"
    unfolding set_keys_inputs_items by simp
  from save_loop_ok[OF con sub] obtain st' where
    st': "save_loop st (map fst (inputs_items env)) = Returns st'"
      "services st' = services st" "pulses st' = pulses st"
      "\<And>inp. settings st' inp =
         (if inp \<in> set (map fst (inputs_items env)) then save_line st inp else settings st inp)"
    by blast
  have all: "\<And>inp. settings st' inp = save_line st inp"
  proof -
    fix inp show "settings st' inp = save_line st inp"
    proof (cases "inp \<in> ?D")
      case True then show ?thesis using st'(4)[of inp] unfolding set_keys_inputs_items by simp
    next
      case False
      with con have "settings st inp = None" by (auto simp: consistent_on_def)
      then show ?thesis using st'(4)[of inp] False unfolding set_keys_inputs_items
        by (simp add: save_line_def)
    qed
  qed
  have a: "\<And>inp sd. settings st inp = Some sd \<Longrightarrow>
              (if sd_function sd > 0
               then \<exists>c. published st inp ''/Count'' = Some (IntV c) \<and>
                        settings st' inp = Some (sd\<lparr>sd_count := c\<rparr>)
               else settings st' inp = Some sd)"
  proof -
    fix inp sd assume sd: "settings st inp = Some sd"
    show "(if sd_function sd > 0
               then \<exists>c. published st inp ''/Count'' = Some (IntV c) \<and>
                        settings st' inp = Some (sd\<lparr>sd_count := c\<rparr>)
               else settings st' inp = Some sd)"
    proof (cases "sd_function sd > 0")
      case False
      then show ?thesis using all[of inp] sd by (simp add: save_line_def)
    next
      case True
      then have "sd_function sd \<noteq> 0" by simp
      from consistent_function_service[OF con sd this] obtain svc where
        svc: "services st inp = Some svc" "count_ok svc" by blast
      from count_ok_D[OF svc(2)] obtain c where "dbusobjects svc ''/Count'' = Some (IntV c)" by blast
      with svc(1) have "published st inp ''/Count'' = Some (IntV c)" by (simp add: published_def)
      then show ?thesis using True all[of inp] sd by (simp add: save_line_def)
    qed
  qed
  have b: "\<And>inp. settings st inp = None \<Longrightarrow> settings st' inp = None"
    using all by (simp add: save_line_def)
  show ?thesis using st'(1,2,3) a b unfolding save_counters_def by blast
qed

theorem save_counters_copies_enabled_counts_witness:
  "consistent scenario_env (run scenario_env scenario_state saving_events) \<and>
   published (run scenario_env scenario_state saving_events) 1 ''/Count'' = Some (IntV 6) \<and>
   settings (run scenario_env scenario_state saving_events) 1 = Some (scenario_stored 1) \<and>
   settings (run scenario_env scenario_state saving_events) 2 =
     Some ((scenario_stored 2)\<lparr>sd_function := 0\<rparr>) \<and>
   (\<exists>st'. save_counters scenario_env (run scenario_env scenario_state saving_events) = Returns st' \<and>
      services st' = services (run scenario_env scenario_state saving_events) \<and>
      pulses st' = pulses (run scenario_env scenario_state saving_events) \<and>
      settings st' 1 = Some ((scenario_stored 1)\<lparr>sd_count := 6\<rparr>) \<and>
      settings st' 2 = Some ((scenario_stored 2)\<lparr>sd_function := 0\<rparr>))"
proof -
  let ?S = "run scenario_env scenario_state saving_events"
  have con: "consistent scenario_env ?S"
    by (rule consistent_run_scenario) (simp add: saving_events_def)
  have c1: "published ?S 1 ''/Count'' = Some (IntV 6)"
    by (simp add: saving_events_def eval_defs)
  have s1: "settings ?S 1 = Some (scenario_stored 1)"
    by (simp add: saving_events_def eval_defs)
  have s2: "settings ?S 2 = Some ((scenario_stored 2)\<lparr>sd_function := 0\<rparr>)"
    by (simp add: saving_events_def eval_defs)
  have f1: "sd_function (scenario_stored 1) > 0" by (simp add: scenario_stored_def)
  have f2: "\<not> sd_function ((scenario_stored 2)\<lparr>sd_function := 0\<rparr>) > 0" by simp
  from save_counters_copies_enabled_counts[OF con] obtain st' where
    st': "save_counters scenario_env ?S = Returns st'" "services st' = services ?S"
      "pulses st' = pulses ?S"
      "\<And>inp sd. settings ?S inp = Some sd \<Longrightarrow>
         (if sd_function sd > 0
          then \<exists>c. published ?S inp ''/Count'' = Some (IntV c) \<and>
                   settings st' inp = Some (sd\<lparr>sd_count := c\<rparr>)
          else settings st' inp = Some sd)"
    by blast
  from st'(4)[OF s1] f1 c1 have a: "settings st' 1 = Some ((scenario_stored 1)\<lparr>sd_count := 6\<rparr>)"
    by (simp only: if_True) auto
  from st'(4)[OF s2] f2 have b: "settings st' 2 = Some ((scenario_stored 2)\<lparr>sd_function := 0\<rparr>)"
    by (simp only: if_False)
  show ?thesis using con c1 s1 s2 st'(1,2,3) a b by blast
qed






end
